theory Spec2Isabelle
  imports Main "HOL-Library.Char_ord" "HOL-Library.List_Lexorder"
begin

section \<open>Values, log entries and the shared message counter\<close>

text \<open>
  A JavaScript value as \<open>JSON.parse\<close> or the HTTP body parser hands it to the service.
  Only the shape matters to the code modelled here: a property read on \<open>null\<close> or
  \<open>undefined\<close> throws a TypeError, on every other value it yields a value.
\<close>

datatype jsvalue =
    JUndefined
  | JNull
  | JBool bool
  | JNumber int
  | JString string
  | JArray "jsvalue list"
  | JObject "(string \<times> jsvalue) list"

datatype js_error = SyntaxError | TypeError | HandlerError string

datatype level = Error | Warn | Info | Debug

text \<open>A log call: level, message and the \<open>operation\<close> tag of its metadata (empty if none).\<close>

datatype log_entry = Log level string string

text \<open>
  \<open>consumerState\<close> of app.ts with the two sinks the handlers write to: the logger and the
  broker channel. \<open>lastMessageAt\<close> is a wall-clock reading and is left out.
\<close>

record message =
  routingKey :: string
  content :: string

datatype chan_op = Ack message | Nack message bool bool

record app_state =
  messagesProcessed :: nat
  logs :: "log_entry list"
  settled :: "chan_op list"

definition trackMessageProcessed :: "app_state \<Rightarrow> app_state" where
  "trackMessageProcessed s = s\<lparr>messagesProcessed := messagesProcessed s + 1\<rparr>"

definition logger :: "level \<Rightarrow> string \<Rightarrow> string \<Rightarrow> app_state \<Rightarrow> app_state" where
  "logger l msg opn s = s\<lparr>logs := logs s @ [Log l msg opn]\<rparr>"

text \<open>
  What the code calls but does not define: \<open>JSON.parse\<close> (\<open>None\<close> when it throws a
  SyntaxError), the field-mapping body passed to \<open>handleEvent\<close> for an event name
  (\<open>Inl\<close> when it throws, otherwise the entries it logs), and the result of calling a
  member inherited from \<open>Object.prototype\<close> as if it were a handler (\<open>True\<close> when the
  call throws).
\<close>

record env =
  JSON_parse :: "string \<Rightarrow> jsvalue option"
  logFunction :: "string \<Rightarrow> jsvalue \<Rightarrow> js_error + log_entry list"
  inheritedCallThrows :: "string \<Rightarrow> jsvalue \<Rightarrow> bool"

section \<open>Events controller: the generic wrapper and the push-mode routes\<close>

record response =
  status :: nat
  json :: "(string \<times> string) list"

definition SUCCESS :: response where
  "SUCCESS = \<lparr>status = 200, json = [(''status'', ''SUCCESS'')]\<rparr>"

text \<open>
  \<open>handleEvent(eventName, logFunction)\<close>: the try block counts the message, runs the
  body and answers; the catch block logs the error and answers the same.
\<close>

definition handleEvent :: "env \<Rightarrow> string \<Rightarrow> jsvalue \<Rightarrow> app_state \<Rightarrow> response \<times> app_state" where
  "handleEvent e eventName body s =
     (let s1 = trackMessageProcessed s in
      case logFunction e eventName body of
        Inr entries \<Rightarrow> (SUCCESS, s1\<lparr>logs := logs s1 @ entries\<rparr>)
      | Inl err \<Rightarrow>
          (SUCCESS, logger Error (''Error handling '' @ eventName @ '' event'') [] s1))"

text \<open>events.routes.ts: the path of each POST route and the event name of its handler.\<close>

definition eventRoutes :: "(string \<times> string) list" where
  "eventRoutes = [
   (''/events/auth/user-registered'', ''auth.user.registered''),
   (''/events/auth/login'', ''auth.login''),
   (''/events/auth/email-verification-requested'', ''auth.email.verification.requested''),
   (''/events/auth/password-reset-requested'', ''auth.password.reset.requested''),
   (''/events/auth/password-reset-completed'', ''auth.password.reset.completed''),
   (''/events/auth/account-reactivation-requested'', ''auth.account.reactivation.requested''),
   (''/events/user/created'', ''user.created''),
   (''/events/user/updated'', ''user.updated''),
   (''/events/user/deleted'', ''user.deleted''),
   (''/events/user/email-verified'', ''email.verified''),
   (''/events/user/password-changed'', ''password.changed''),
   (''/events/order/created'', ''order.created''),
   (''/events/order/confirmed'', ''order.confirmed''),
   (''/events/order/shipped'', ''order.shipped''),
   (''/events/order/delivered'', ''order.delivered''),
   (''/events/order/completed'', ''order.completed''),
   (''/events/order/cancelled'', ''order.cancelled''),
   (''/events/order/refunded'', ''order.refunded''),
   (''/events/order/payment-received'', ''payment.received''),
   (''/events/order/payment-failed'', ''payment.failed''),
   (''/events/product/created'', ''product.created''),
   (''/events/product/updated'', ''product.updated''),
   (''/events/product/deleted'', ''product.deleted''),
   (''/events/product/price-changed'', ''product.price.changed''),
   (''/events/cart/item-added'', ''cart.item.added''),
   (''/events/cart/item-removed'', ''cart.item.removed''),
   (''/events/cart/cleared'', ''cart.cleared''),
   (''/events/cart/abandoned'', ''cart.abandoned''),
   (''/events/inventory/stock-updated'', ''inventory.stock.updated''),
   (''/events/inventory/restock'', ''inventory.restock''),
   (''/events/inventory/low-stock-alert'', ''inventory.low.stock.alert''),
   (''/events/inventory/reserved'', ''inventory.reserved''),
   (''/events/review/created'', ''review.created''),
   (''/events/review/updated'', ''review.updated''),
   (''/events/review/deleted'', ''review.deleted''),
   (''/events/review/moderated'', ''review.moderated''),
   (''/events/review/flagged'', ''review.flagged''),
   (''/events/notification/sent'', ''notification.sent''),
   (''/events/notification/delivered'', ''notification.delivered''),
   (''/events/notification/failed'', ''notification.failed''),
   (''/events/notification/opened'', ''notification.opened''),
   (''/events/admin/action-performed'', ''admin.action.performed''),
   (''/events/admin/user-created'', ''admin.user.created''),
   (''/events/admin/config-changed'', ''admin.config.changed'')]"

text \<open>
  A POST to \<open>path\<close> with the parsed body: the registered handler runs, or the request is
  not an event route (\<open>None\<close>; the other routers and the 404 handler take it).
\<close>

definition postEvent :: "env \<Rightarrow> string \<Rightarrow> jsvalue \<Rightarrow> app_state \<Rightarrow> (response \<times> app_state) option" where
  "postEvent e path body s =
     (case map_of eventRoutes path of
        None \<Rightarrow> None
      | Some eventName \<Rightarrow> Some (handleEvent e eventName body s))"

section \<open>RabbitMQ consumer: dispatch table and per-message processing\<close>

text \<open>
  \<open>TOPIC_HANDLERS\<close>: each routing key with the event name of the controller handler its
  entry calls (with a mock request holding the event and a mock response).
\<close>

definition TOPIC_HANDLERS :: "(string \<times> string) list" where
  "TOPIC_HANDLERS = [
   (''auth.user.registered'', ''auth.user.registered''),
   (''auth.login'', ''auth.login''),
   (''auth.email.verification.requested'', ''auth.email.verification.requested''),
   (''auth.password.reset.requested'', ''auth.password.reset.requested''),
   (''auth.password.reset.completed'', ''auth.password.reset.completed''),
   (''auth.account.reactivation.requested'', ''auth.account.reactivation.requested''),
   (''user.created'', ''user.created''),
   (''user.updated'', ''user.updated''),
   (''user.deleted'', ''user.deleted''),
   (''email.verified'', ''email.verified''),
   (''password.changed'', ''password.changed''),
   (''order.created'', ''order.created''),
   (''order.cancelled'', ''order.cancelled''),
   (''order.delivered'', ''order.delivered''),
   (''payment.received'', ''payment.received''),
   (''payment.failed'', ''payment.failed''),
   (''product.created'', ''product.created''),
   (''product.updated'', ''product.updated''),
   (''product.deleted'', ''product.deleted''),
   (''product.price.changed'', ''product.price.changed''),
   (''cart.item.added'', ''cart.item.added''),
   (''cart.item.removed'', ''cart.item.removed''),
   (''cart.cleared'', ''cart.cleared''),
   (''cart.abandoned'', ''cart.abandoned''),
   (''inventory.stock.updated'', ''inventory.stock.updated''),
   (''inventory.restock'', ''inventory.restock''),
   (''inventory.low.stock.alert'', ''inventory.low.stock.alert''),
   (''inventory.reserved'', ''inventory.reserved''),
   (''review.created'', ''review.created''),
   (''review.updated'', ''review.updated''),
   (''review.deleted'', ''review.deleted''),
   (''review.moderated'', ''review.moderated''),
   (''review.flagged'', ''review.flagged''),
   (''notification.sent'', ''notification.sent''),
   (''notification.delivered'', ''notification.delivered''),
   (''notification.failed'', ''notification.failed''),
   (''notification.opened'', ''notification.opened''),
   (''admin.action.performed'', ''admin.action.performed''),
   (''admin.user.created'', ''admin.user.created''),
   (''admin.config.changed'', ''admin.config.changed'')]"

text \<open>
  \<open>TOPIC_HANDLERS\<close> is an object literal, so \<open>TOPIC_HANDLERS[routingKey]\<close> also finds
  the members every object inherits from \<open>Object.prototype\<close>; all of them are truthy.
\<close>

definition Object_prototype_keys :: "string list" where
  "Object_prototype_keys =
     [''constructor'', ''__defineGetter__'', ''__defineSetter__'', ''hasOwnProperty'',
      ''__lookupGetter__'', ''__lookupSetter__'', ''isPrototypeOf'',
      ''propertyIsEnumerable'', ''toString'', ''valueOf'', ''__proto__'',
      ''toLocaleString'']"

datatype handler_ref = Registered string | InheritedMember string | NoHandler

definition lookupHandler :: "string \<Rightarrow> handler_ref" where
  "lookupHandler key =
     (case map_of TOPIC_HANDLERS key of
        Some eventName \<Rightarrow> Registered eventName
      | None \<Rightarrow> if key \<in> set Object_prototype_keys then InheritedMember key else NoHandler)"

text \<open>JavaScript truthiness, and the expression \<open>event.id || event.eventId\<close>.\<close>

fun truthy :: "jsvalue \<Rightarrow> bool" where
  "truthy JUndefined = False"
| "truthy JNull = False"
| "truthy (JBool b) = b"
| "truthy (JNumber n) = (n \<noteq> 0)"
| "truthy (JString s) = (s \<noteq> [])"
| "truthy (JArray xs) = True"
| "truthy (JObject kvs) = True"

fun getField :: "jsvalue \<Rightarrow> string \<Rightarrow> js_error + jsvalue" where
  "getField JUndefined k = Inl TypeError"
| "getField JNull k = Inl TypeError"
| "getField (JObject kvs) k = Inr (case map_of kvs k of None \<Rightarrow> JUndefined | Some v \<Rightarrow> v)"
| "getField v k = Inr JUndefined"

definition eventIdOf :: "jsvalue \<Rightarrow> js_error + jsvalue" where
  "eventIdOf event =
     (case getField event ''id'' of
        Inl err \<Rightarrow> Inl err
      | Inr v \<Rightarrow> if truthy v then Inr v else getField event ''eventId'')"

text \<open>The catch block of the consume callback: log the error, reject and requeue.\<close>

definition onError :: "message \<Rightarrow> app_state \<Rightarrow> app_state" where
  "onError msg s =
     (let s1 = logger Error (''Error processing audit event: '' @ routingKey msg) ''message_error'' s
      in s1\<lparr>settled := settled s1 @ [Nack msg False True]\<rparr>)"

text \<open>
  The rest of the handler branch once the handler has returned: count, acknowledge, then
  build the debug entry, whose metadata reads \<open>event.id || event.eventId\<close>.
\<close>

definition afterHandler :: "message \<Rightarrow> jsvalue \<Rightarrow> app_state \<Rightarrow> app_state" where
  "afterHandler msg event s =
     (let s1 = trackMessageProcessed s;
          s2 = s1\<lparr>settled := settled s1 @ [Ack msg]\<rparr>
      in case eventIdOf event of
           Inl err \<Rightarrow> onError msg s2
         | Inr eventId \<Rightarrow>
             logger Debug (''Processed audit event: '' @ routingKey msg) ''message_processed'' s2)"

text \<open>
  The callback given to \<open>channel.consume\<close>; \<open>None\<close> is the null delivery of a cancelled
  consumer. A registered handler is the controller wrapper, which always resolves.
\<close>

definition onMessage :: "env \<Rightarrow> message option \<Rightarrow> app_state \<Rightarrow> app_state" where
  "onMessage e delivery s =
     (case delivery of
        None \<Rightarrow> s
      | Some msg \<Rightarrow>
          (case JSON_parse e (content msg) of
             None \<Rightarrow> onError msg s
           | Some event \<Rightarrow>
               (case lookupHandler (routingKey msg) of
                  Registered eventName \<Rightarrow>
                    afterHandler msg event (snd (handleEvent e eventName event s))
                | InheritedMember key \<Rightarrow>
                    if inheritedCallThrows e key event then onError msg s
                    else afterHandler msg event s
                | NoHandler \<Rightarrow>
                    (let s1 = logger Warn (''No handler for topic: '' @ routingKey msg) ''no_handler'' s
                     in s1\<lparr>settled := settled s1 @ [Ack msg]\<rparr>))))"

text \<open>
  A parser and handler bodies to run the callback on. The two texts \<open>null\<close> and \<open>{}\<close>
  parse, every other text is rejected. A handler body throws on \<open>null\<close> and
  \<open>undefined\<close>, whose fields cannot be read. Called as a plain function, \<open>Object\<close> and
  \<open>Object.prototype.toString\<close> return, \<open>isPrototypeOf\<close> throws on an object argument
  only, and every other inherited member throws.
\<close>

fun isObject :: "jsvalue \<Rightarrow> bool" where
  "isObject (JArray xs) = True"
| "isObject (JObject kvs) = True"
| "isObject v = False"

definition sampleEnv :: env where
  "sampleEnv =
     \<lparr>JSON_parse = (\<lambda>text. if text = ''null'' then Some JNull
                           else if text = ''{}'' then Some (JObject []) else None),
      logFunction = (\<lambda>eventName event.
                       if event = JNull \<or> event = JUndefined then Inl TypeError
                       else Inr [Log Info eventName ''business'']),
      inheritedCallThrows = (\<lambda>key event.
                       if key = ''isPrototypeOf'' then isObject event
                       else key \<notin> set [''constructor'', ''toString''])\<rparr>"

definition idle :: app_state where
  "idle = \<lparr>messagesProcessed = 0, logs = [], settled = []\<rparr>"

section \<open>RabbitMQ consumer: connection, reconnection and shutdown\<close>

text \<open>
  How far \<open>connect()\<close> gets before the broker client throws: at \<open>amqp.connect\<close>, at
  \<open>createChannel\<close>, at prefetch or the exchange and queue assertions, or not at all; and
  whether the bindings and \<open>channel.consume\<close> of \<open>subscribe()\<close> throw.
\<close>

datatype connect_outcome = ConnectThrows | CreateChannelThrows | SetupThrows | Connected

datatype subscribe_outcome = SubscribeThrows | Subscribed

type_synonym attempt = "connect_outcome \<times> subscribe_outcome"

datatype close_op = ChannelClosed nat | ConnectionClosed nat

text \<open>
  The consumer object. Connections are named by the order in which they were opened.
  \<open>timers\<close> holds the delays of the armed \<open>setTimeout\<close> calls, \<open>scheduled\<close> every delay
  ever passed to \<open>setTimeout\<close>, \<open>closeOps\<close> the close calls that completed, \<open>listening\<close>
  the connections on which \<open>connect()\<close> has registered its close listener, and \<open>closed\<close>
  the connections that are closed, by the broker or by \<open>stop()\<close>.
\<close>

record consumer =
  connection :: "nat option"
  channel :: "nat option"
  reconnectAttempts :: nat
  timers :: "nat list"
  scheduled :: "nat list"
  opened :: nat
  closeOps :: "close_op list"
  listening :: "nat list"
  closed :: "nat list"
  clogs :: "log_entry list"

definition maxReconnectAttempts :: nat where
  "maxReconnectAttempts = 10"

definition reconnectDelay :: nat where
  "reconnectDelay = 5000"

definition newConsumer :: consumer where
  "newConsumer = \<lparr>connection = None, channel = None, reconnectAttempts = 0, timers = [],
     scheduled = [], opened = 0, closeOps = [], listening = [], closed = [], clogs = []\<rparr>"

definition clogger :: "level \<Rightarrow> string \<Rightarrow> string \<Rightarrow> consumer \<Rightarrow> consumer" where
  "clogger l msg opn s = s\<lparr>clogs := clogs s @ [Log l msg opn]\<rparr>"

text \<open>Decimal rendering of a number inside a template string.\<close>

function showNat :: "nat \<Rightarrow> string" where
  "showNat n = (if n < 10 then [char_of (48 + n)] else showNat (n div 10) @ [char_of (48 + n mod 10)])"
  by pat_completeness auto
termination
  by (relation "measure id") auto

text \<open>
  \<open>connect()\<close> and \<open>subscribe()\<close>: the flag is \<open>False\<close> when the call throws; the fields
  assigned before the throw keep their new values, and the close listener is registered
  only once the queue has been asserted. The per-topic debug entries of \<open>subscribe()\<close>
  are left out.
\<close>

definition connect :: "connect_outcome \<Rightarrow> consumer \<Rightarrow> bool \<times> consumer" where
  "connect out s =
     (case out of
        ConnectThrows \<Rightarrow> (False, s)
      | CreateChannelThrows \<Rightarrow>
          (False, s\<lparr>connection := Some (opened s), opened := opened s + 1\<rparr>)
      | SetupThrows \<Rightarrow>
          (False, s\<lparr>connection := Some (opened s), channel := Some (opened s),
                      opened := opened s + 1\<rparr>)
      | Connected \<Rightarrow>
          (True, clogger Info ''RabbitMQ connection established'' ''connection_established''
                   (s\<lparr>connection := Some (opened s), channel := Some (opened s),
                       opened := opened s + 1, listening := listening s @ [opened s]\<rparr>)))"

definition subscribe :: "subscribe_outcome \<Rightarrow> consumer \<Rightarrow> bool \<times> consumer" where
  "subscribe out s =
     (if channel s = None then (False, s)
      else case out of
             SubscribeThrows \<Rightarrow> (False, s)
           | Subscribed \<Rightarrow>
               (True, clogger Info (''Subscribed to '' @ showNat (length TOPIC_HANDLERS) @ '' audit topics'')
                        ''subscribe_complete'' s))"

text \<open>\<open>await this.connect(); await this.subscribe();\<close> inside a try block.\<close>

definition connectAndSubscribe :: "attempt \<Rightarrow> consumer \<Rightarrow> bool \<times> consumer" where
  "connectAndSubscribe a s =
     (case connect (fst a) s of
        (False, s1) \<Rightarrow> (False, s1)
      | (True, s1) \<Rightarrow> subscribe (snd a) s1)"

definition handleReconnect :: "consumer \<Rightarrow> consumer" where
  "handleReconnect s =
     (if reconnectAttempts s \<ge> maxReconnectAttempts then
        clogger Error ''Max reconnection attempts reached'' ''reconnect_failed'' s
      else
        let n = reconnectAttempts s + 1;
            delay = reconnectDelay * 2 ^ (n - 1);
            s1 = clogger Info (''Attempting reconnection in '' @ showNat delay @ ''ms (attempt ''
                                 @ showNat n @ '')'') ''reconnect_scheduled''
                   (s\<lparr>reconnectAttempts := n\<rparr>)
        in s1\<lparr>timers := timers s1 @ [delay], scheduled := scheduled s1 @ [delay]\<rparr>)"

definition start :: "attempt \<Rightarrow> consumer \<Rightarrow> consumer" where
  "start a s =
     (case connectAndSubscribe a s of
        (True, s1) \<Rightarrow> clogger Info ''RabbitMQ consumer started successfully'' ''consumer_start'' s1
      | (False, s1) \<Rightarrow>
          handleReconnect (clogger Error ''Failed to start RabbitMQ consumer'' ''consumer_start'' s1))"

text \<open>The callback given to \<open>setTimeout\<close> by \<open>handleReconnect\<close>.\<close>

definition reconnectCallback :: "attempt \<Rightarrow> consumer \<Rightarrow> consumer" where
  "reconnectCallback a s =
     (case connectAndSubscribe a s of
        (True, s1) \<Rightarrow>
          clogger Info ''Reconnection successful'' ''reconnect_success'' (s1\<lparr>reconnectAttempts := 0\<rparr>)
      | (False, s1) \<Rightarrow>
          handleReconnect (clogger Error ''Reconnection failed'' ''reconnect_error'' s1))"

text \<open>The armed timer at position \<open>i\<close> expires; nothing happens if there is none.\<close>

definition fireTimer :: "nat \<Rightarrow> attempt \<Rightarrow> consumer \<Rightarrow> consumer" where
  "fireTimer i a s =
     (if i < length (timers s)
      then reconnectCallback a (s\<lparr>timers := take i (timers s) @ drop (Suc i) (timers s)\<rparr>)
      else s)"

text \<open>The listener \<open>connect()\<close> registers for the connection's close event.\<close>

definition onConnectionClose :: "consumer \<Rightarrow> consumer" where
  "onConnectionClose s =
     handleReconnect (clogger Warn ''RabbitMQ connection closed'' ''connection_close'' s)"

text \<open>
  Connection \<open>c\<close> emits its close event, as it does when the broker closes it and when
  \<open>connection.close()\<close> completes: the listener runs if \<open>connect()\<close> registered one on it.
\<close>

definition emitClose :: "nat \<Rightarrow> consumer \<Rightarrow> consumer" where
  "emitClose c s = (if c \<in> set (listening s) then onConnectionClose s else s)"

text \<open>The broker closes the open connection \<open>c\<close>.\<close>

definition connectionDropped :: "nat \<Rightarrow> consumer \<Rightarrow> consumer" where
  "connectionDropped c s =
     (if c < opened s \<and> c \<notin> set (closed s)
      then emitClose c (s\<lparr>closed := closed s @ [c]\<rparr>)
      else s)"

text \<open>
  \<open>stop()\<close>. A close call throws on a channel or connection that is already closed; the
  flags say whether \<open>channel.close()\<close> and \<open>connection.close()\<close> throw for another reason.
  A channel carries the name of the connection it was created on.
\<close>

definition stopFailed :: "consumer \<Rightarrow> consumer" where
  "stopFailed s = clogger Error ''Error stopping RabbitMQ consumer'' ''consumer_stop_error'' s"

definition stopConnection :: "bool \<Rightarrow> consumer \<Rightarrow> consumer" where
  "stopConnection connectionCloseThrows s =
     (case connection s of
        None \<Rightarrow> clogger Info ''RabbitMQ consumer stopped'' ''consumer_stop'' s
      | Some c \<Rightarrow>
          if connectionCloseThrows \<or> c \<in> set (closed s) then stopFailed s
          else clogger Info ''RabbitMQ consumer stopped'' ''consumer_stop''
                 ((emitClose c (s\<lparr>closeOps := closeOps s @ [ConnectionClosed c],
                                  closed := closed s @ [c]\<rparr>))\<lparr>connection := None\<rparr>))"

definition stop :: "bool \<Rightarrow> bool \<Rightarrow> consumer \<Rightarrow> consumer" where
  "stop channelCloseThrows connectionCloseThrows s =
     (case channel s of
        None \<Rightarrow> stopConnection connectionCloseThrows s
      | Some ch \<Rightarrow>
          if channelCloseThrows \<or> ch \<in> set (closed s) then stopFailed s
          else stopConnection connectionCloseThrows
                 (s\<lparr>closeOps := closeOps s @ [ChannelClosed ch], channel := None\<rparr>))"

text \<open>
  A run of the consumer: \<open>start()\<close> meets the first outcome, and each later outcome is
  met by the oldest armed timer when it expires.
\<close>

fun fireAll :: "attempt list \<Rightarrow> consumer \<Rightarrow> consumer" where
  "fireAll [] s = s"
| "fireAll (a # rest) s = fireAll rest (fireTimer 0 a s)"

definition startThenRetry :: "attempt list \<Rightarrow> consumer \<Rightarrow> consumer" where
  "startThenRetry outcomes s =
     (case outcomes of [] \<Rightarrow> s | a # rest \<Rightarrow> fireAll rest (start a s))"

definition attemptFails :: "attempt \<Rightarrow> bool" where
  "attemptFails a = (fst a \<noteq> Connected \<or> snd a = SubscribeThrows)"

text \<open>What \<open>stop()\<close> leaves when both closes succeed: no channel and no connection held.\<close>

definition released :: "consumer \<Rightarrow> bool" where
  "released s = (channel s = None \<and> connection s = None)"

section \<open>Migration runner\<close>

text \<open>
  A migration file read from disk, and a row of \<open>migration_history\<close>. The columns \<open>id\<close>
  and \<open>executed_at\<close> are assigned by the server and never supplied by the runner; the
  history is kept in insertion order, the order \<open>ORDER BY executed_at ASC\<close> returns.
\<close>

record migration =
  name :: string
  filePath :: string
  sqlContent :: string
  checksum :: string

record migration_record =
  migration_name :: string
  execution_time_ms :: int
  recorded_checksum :: string

text \<open>
  The database: what the migration bodies have built (\<open>schema\<close>) and the history table,
  \<open>None\<close> while the table does not exist. A client is a session on it: \<open>committed\<close> is
  the durable state, \<open>txn\<close> the working copy of the open transaction block, if any, and
  \<open>aborted\<close> says that a statement has failed inside that block, after which the server
  refuses every statement but COMMIT and ROLLBACK. The runner takes one client at a time
  and releases it before it takes the next, so the pool hands it the same session again.
\<close>

type_synonym schema = "string list"

record database =
  schema :: schema
  migration_history :: "migration_record list option"

record client =
  committed :: database
  txn :: "database option"
  aborted :: bool

datatype db_error =
    ConnectionError
  | QueryError string
  | InFailedTransaction
  | UndefinedTable string
  | UniqueViolation string
  | FsError string
  | StartupError string

text \<open>
  The statements of a query text as the server runs them: transaction control, or an
  ordinary statement, given by its text.
\<close>

datatype statement = Change string | Begin | Commit | Rollback

text \<open>
  What the runner is given: the migrations directory, SHA-256 as a hex digest, the
  statements a migration body consists of, the effect of an ordinary statement on the
  schema (\<open>None\<close> when it fails; bodies do not write the history table), the milliseconds
  measured around the migration of a given name, and whether \<open>pool.connect()\<close> yields a
  client.
\<close>

record menv =
  migrationsDir :: string
  sha256 :: "string \<Rightarrow> string"
  statements :: "string \<Rightarrow> statement list"
  applySql :: "string \<Rightarrow> schema \<Rightarrow> schema option"
  elapsed :: "string \<Rightarrow> int"
  poolConnect :: bool

text \<open>
  The directory as \<open>readdir\<close> and \<open>readFile\<close> see it: \<open>None\<close> when it cannot be listed,
  otherwise its entries, each with its text or \<open>None\<close> when it cannot be read.
\<close>

type_synonym directory = "(string \<times> string option) list option"

definition view :: "client \<Rightarrow> database" where
  "view c = (case txn c of None \<Rightarrow> committed c | Some w \<Rightarrow> w)"

definition store :: "client \<Rightarrow> database \<Rightarrow> client" where
  "store c d = (case txn c of None \<Rightarrow> c\<lparr>committed := d\<rparr> | Some w \<Rightarrow> c\<lparr>txn := Some d\<rparr>)"

text \<open>A statement has failed: inside a transaction block the block is now aborted.\<close>

definition failed :: "client \<Rightarrow> client" where
  "failed c = (case txn c of None \<Rightarrow> c | Some w \<Rightarrow> c\<lparr>aborted := True\<rparr>)"

definition noTransaction :: "client \<Rightarrow> bool" where
  "noTransaction c = (txn c = None \<and> \<not> aborted c)"

text \<open>
  The statements of one query message, run in the open block. \<open>implicit\<close> says that the
  block belongs to the message: it is then committed at the end of the message and
  rolled back by a failure. BEGIN makes the block a regular one; COMMIT and ROLLBACK end
  the block, and the statements after them run in a new implicit block.
\<close>

fun exec :: "menv \<Rightarrow> statement list \<Rightarrow> bool \<Rightarrow> client \<Rightarrow> db_error option \<times> client" where
  "exec e [] implicit c =
     (None, if implicit then \<lparr>committed = view c, txn = None, aborted = False\<rparr> else c)"
| "exec e (Begin # rest) implicit c =
     (if aborted c then (Some InFailedTransaction, c) else exec e rest False c)"
| "exec e (Commit # rest) implicit c =
     (let d = (if aborted c then committed c else view c)
      in exec e rest True \<lparr>committed = d, txn = Some d, aborted = False\<rparr>)"
| "exec e (Rollback # rest) implicit c =
     exec e rest True \<lparr>committed = committed c, txn = Some (committed c), aborted = False\<rparr>"
| "exec e (Change text # rest) implicit c =
     (if aborted c then (Some InFailedTransaction, c)
      else case applySql e text (schema (view c)) of
             None \<Rightarrow> (Some (QueryError text), if implicit then c\<lparr>txn := None\<rparr> else failed c)
           | Some sch \<Rightarrow> exec e rest implicit (store c ((view c)\<lparr>schema := sch\<rparr>)))"

text \<open>
  \<open>client.query\<close> with a query text and no parameters: the message continues the open
  block, or runs in an implicit block of its own.
\<close>

definition query :: "menv \<Rightarrow> statement list \<Rightarrow> client \<Rightarrow> db_error option \<times> client" where
  "query e stmts c =
     (case txn c of
        None \<Rightarrow> exec e stmts True (c\<lparr>txn := Some (committed c)\<rparr>)
      | Some w \<Rightarrow> exec e stmts False c)"

text \<open>
  The INSERT into \<open>migration_history\<close>, a single statement with parameters; the name
  column of the table is UNIQUE.
\<close>

definition insertHistory :: "migration_record \<Rightarrow> client \<Rightarrow> db_error option \<times> client" where
  "insertHistory r c =
     (if aborted c then (Some InFailedTransaction, c)
      else case migration_history (view c) of
             None \<Rightarrow> (Some (UndefinedTable ''migration_history''), failed c)
           | Some h \<Rightarrow>
               if migration_name r \<in> set (map migration_name h)
               then (Some (UniqueViolation (migration_name r)), failed c)
               else (None, store c ((view c)\<lparr>migration_history := Some (h @ [r])\<rparr>)))"

definition endsWith :: "string \<Rightarrow> string \<Rightarrow> bool" where
  "endsWith s suffix =
     (length suffix \<le> length s \<and> drop (length s - length suffix) s = suffix)"

text \<open>\<open>basename(file, ext)\<close> on a directory entry, which has no path separator.\<close>

definition basename :: "string \<Rightarrow> string \<Rightarrow> string" where
  "basename file ext =
     (if ext \<noteq> [] \<and> endsWith file ext then take (length file - length ext) file else file)"

definition calculateChecksum :: "menv \<Rightarrow> string \<Rightarrow> string" where
  "calculateChecksum e text = sha256 e text"


text \<open>The loop of \<open>getAvailableMigrations\<close> over the sorted file names.\<close>

fun readMigrations :: "menv \<Rightarrow> (string \<times> string option) list \<Rightarrow> string list \<Rightarrow> db_error + migration list" where
  "readMigrations e entries [] = Inr []"
| "readMigrations e entries (file # files) =
     (case map_of entries file of
        Some (Some text) \<Rightarrow>
          (case readMigrations e entries files of
             Inl err \<Rightarrow> Inl err
           | Inr migrations \<Rightarrow>
               Inr (\<lparr>name = basename file ''.sql'',
                     filePath = migrationsDir e @ ''/'' @ file,
                     sqlContent = text,
                     checksum = calculateChecksum e text\<rparr> # migrations))
      | _ \<Rightarrow> Inl (FsError file))"

definition sqlFiles :: "(string \<times> string option) list \<Rightarrow> string list" where
  "sqlFiles entries = sort (filter (\<lambda>file. endsWith file ''.sql'') (map fst entries))"

definition getAvailableMigrations :: "menv \<Rightarrow> directory \<Rightarrow> db_error + migration list" where
  "getAvailableMigrations e dir =
     (case dir of
        None \<Rightarrow> Inl (FsError (migrationsDir e))
      | Some entries \<Rightarrow> readMigrations e entries (sqlFiles entries))"

text \<open>
  A missing table is caught and read as no rows; any other failure is thrown. The SELECT
  is a read and is given by its result alone: the runner ends every transaction block
  it opens, so it never sends the SELECT inside one, where a failure would abort the block.
\<close>

definition getExecutedMigrations :: "menv \<Rightarrow> client \<Rightarrow> db_error + migration_record list" where
  "getExecutedMigrations e c =
     (if \<not> poolConnect e then Inl ConnectionError
      else if aborted c then Inl InFailedTransaction
      else case migration_history (view c) of None \<Rightarrow> Inr [] | Some h \<Rightarrow> Inr h)"

definition historyRecord :: "menv \<Rightarrow> migration \<Rightarrow> migration_record" where
  "historyRecord e m =
     \<lparr>migration_name = name m, execution_time_ms = elapsed e (name m),
      recorded_checksum = checksum m\<rparr>"


text \<open>The catch block of \<open>executeMigration\<close>: roll back, then rethrow.\<close>

definition rollbackAndThrow :: "menv \<Rightarrow> db_error \<Rightarrow> client \<Rightarrow> db_error option \<times> client" where
  "rollbackAndThrow e err c =
     (case query e [Rollback] c of
        (Some err2, c2) \<Rightarrow> (Some err2, c2)
      | (None, c2) \<Rightarrow> (Some err, c2))"

definition executeMigration :: "menv \<Rightarrow> migration \<Rightarrow> client \<Rightarrow> db_error option \<times> client" where
  "executeMigration e m c =
     (if \<not> poolConnect e then (Some ConnectionError, c)
      else
        case query e [Begin] c of
          (Some err, c1) \<Rightarrow> rollbackAndThrow e err c1
        | (None, c1) \<Rightarrow>
            (case query e (statements e (sqlContent m)) c1 of
               (Some err, c2) \<Rightarrow> rollbackAndThrow e err c2
             | (None, c2) \<Rightarrow>
                 (case insertHistory (historyRecord e m) c2 of
                    (Some err, c3) \<Rightarrow> rollbackAndThrow e err c3
                  | (None, c3) \<Rightarrow>
                      (case query e [Commit] c3 of
                         (Some err, c4) \<Rightarrow> rollbackAndThrow e err c4
                       | (None, c4) \<Rightarrow> (None, c4)))))"




text \<open>What \<open>validateMigrations\<close> logs, with the level of each entry.\<close>

datatype report =
    MigrationFileMissing string
  | ChecksumMismatch string string string
  | AllChecksumsValidated
  | ReadMigrationFilesFailed db_error
  | ValidationFailed db_error

fun reportLevel :: "report \<Rightarrow> level" where
  "reportLevel (MigrationFileMissing n) = Warn"
| "reportLevel (ChecksumMismatch n expected actual) = Error"
| "reportLevel AllChecksumsValidated = Info"
| "reportLevel (ReadMigrationFilesFailed err) = Error"
| "reportLevel (ValidationFailed err) = Error"

text \<open>The loop of \<open>validateMigrations\<close> over the executed migrations.\<close>

fun checkExecuted :: "migration list \<Rightarrow> migration_record list \<Rightarrow> bool \<times> report list" where
  "checkExecuted available [] = (True, [AllChecksumsValidated])"
| "checkExecuted available (executed # rest) =
     (case find (\<lambda>m. name m = migration_name executed) available of
        None \<Rightarrow>
          (case checkExecuted available rest of
             (ok, reports) \<Rightarrow> (ok, MigrationFileMissing (migration_name executed) # reports))
      | Some found \<Rightarrow>
          if checksum found \<noteq> recorded_checksum executed
          then (False, [ChecksumMismatch (migration_name executed)
                          (recorded_checksum executed) (checksum found)])
          else checkExecuted available rest)"

text \<open>
  \<open>validateMigrations\<close>: its answer, what it logged, and the session it leaves.
\<close>

definition validateMigrations :: "menv \<Rightarrow> directory \<Rightarrow> client \<Rightarrow> bool \<times> report list \<times> client" where
  "validateMigrations e dir c =
     (case getAvailableMigrations e dir of
        Inl err \<Rightarrow> (False, [ReadMigrationFilesFailed err, ValidationFailed err], c)
      | Inr available \<Rightarrow>
          (case getExecutedMigrations e c of
             Inl err \<Rightarrow> (False, [ValidationFailed err], c)
           | Inr executed \<Rightarrow>
               (case checkExecuted available executed of
                  (ok, reports) \<Rightarrow> (ok, reports, c))))"


text \<open>An executed migration whose file is gone, or whose file no longer hashes the same.\<close>

definition fileMissing :: "migration list \<Rightarrow> migration_record \<Rightarrow> bool" where
  "fileMissing available r = (find (\<lambda>m. name m = migration_name r) available = None)"

definition drifted :: "migration list \<Rightarrow> migration_record \<Rightarrow> bool" where
  "drifted available r =
     (case find (\<lambda>m. name m = migration_name r) available of
        None \<Rightarrow> False
      | Some found \<Rightarrow> checksum found \<noteq> recorded_checksum r)"


text \<open>
  A small installation to run the migration runner on. Every body is one ordinary
  statement, except one that commits in the middle; two statements fail.
\<close>

definition sampleMenv :: menv where
  "sampleMenv =
     \<lparr>migrationsDir = ''/app/src/db/migrations'',
      sha256 = (\<lambda>text. ''sha:'' @ text),
      statements = (\<lambda>text. if text = ''CREATE TABLE t; COMMIT; SELECT 1/0''
                              then [Change ''CREATE TABLE t'', Commit, Change ''SELECT 1/0'']
                              else [Change text]),
      applySql = (\<lambda>text sch. if text = ''BROKEN'' \<or> text = ''SELECT 1/0'' then None
                               else Some (sch @ [text])),
      elapsed = (\<lambda>n. 7),
      poolConnect = True\<rparr>"

text \<open>A client fresh from the pool.\<close>

definition session :: "database \<Rightarrow> client" where
  "session db = \<lparr>committed = db, txn = None, aborted = False\<rparr>"






definition migratedDb :: database where
  "migratedDb =
     \<lparr>schema = [''CREATE TABLE'', ''CREATE INDEX''],
      migration_history = Some
        [\<lparr>migration_name = ''001_init'', execution_time_ms = 7,
           recorded_checksum = ''sha:CREATE TABLE''\<rparr>,
         \<lparr>migration_name = ''002_indexes'', execution_time_ms = 7,
           recorded_checksum = ''sha:CREATE INDEX''\<rparr>]\<rparr>"

text \<open>The same directory later: the first file is gone, the second has been edited.\<close>

definition driftedDir :: directory where
  "driftedDir = Some [(''002_indexes.sql'', Some ''CREATE UNIQUE INDEX'')]"

text \<open>And the other way round: the first file has been edited, the second is gone.\<close>

definition editedDir :: directory where
  "editedDir = Some [(''001_init.sql'', Some ''CREATE TABLE v2'')]"

section \<open>Push mode: the answer of an event route\<close>

lemma handleEvent_response: "fst (handleEvent e eventName body s) = SUCCESS"
  by (simp add: handleEvent_def Let_def split: sum.splits)

text \<open>
  C9. A POST to any registered event route is answered with status 200 and the body
  \<open>{status: "SUCCESS"}\<close>, whether the handler body returns or throws; when it throws,
  the failure is logged at error level and nothing else is reported.
\<close>

theorem push_route_always_success:
  assumes "map_of eventRoutes path = Some eventName"
  shows "\<exists>s'. postEvent e path body s = Some (SUCCESS, s')
           \<and> status SUCCESS = 200 \<and> json SUCCESS = [(''status'', ''SUCCESS'')]
           \<and> (case logFunction e eventName body of
                 Inl err \<Rightarrow> logs s' = logs s @ [Log Error (''Error handling '' @ eventName @ '' event'') []]
               | Inr entries \<Rightarrow> logs s' = logs s @ entries)"
  using assms
  by (simp add: postEvent_def handleEvent_def SUCCESS_def Let_def logger_def
      trackMessageProcessed_def split: sum.splits)

text \<open>The route of \<open>user.created\<close> with a body whose handler throws.\<close>

theorem push_route_always_success_witness:
  "map_of eventRoutes ''/events/user/created'' = Some ''user.created''
   \<and> logFunction sampleEnv ''user.created'' JNull = Inl TypeError
   \<and> (\<exists>s'. postEvent sampleEnv ''/events/user/created'' JNull idle = Some (SUCCESS, s')
         \<and> logs s' = [Log Error ''Error handling user.created event'' []])"
proof -
  have h: "map_of eventRoutes ''/events/user/created'' = Some ''user.created''"
    by (simp add: eventRoutes_def)
  have l: "logFunction sampleEnv ''user.created'' JNull = Inl TypeError"
    by (simp add: sampleEnv_def)
  from push_route_always_success [OF h, of sampleEnv JNull idle] l
  show ?thesis using h by (auto simp: idle_def)
qed

section \<open>Pull mode: what happens to one delivery\<close>

text \<open>
  C1, as stated, fails: a delivery whose body does not parse is not acknowledged; the
  only channel operation is a negative acknowledgement with requeue.
\<close>

theorem malformed_body_counterexample:
  "JSON_parse sampleEnv ''{oops'' = None
   \<and> settled (onMessage sampleEnv (Some \<lparr>routingKey = ''user.created'', content = ''{oops''\<rparr>) idle)
       = [Nack \<lparr>routingKey = ''user.created'', content = ''{oops''\<rparr> False True]"
  by (simp add: sampleEnv_def onMessage_def onError_def logger_def idle_def Let_def)

text \<open>
  C1, amended. A delivery whose body fails to parse as JSON is logged at error level and
  negatively acknowledged with requeue; it is not acknowledged, the counter does not move.
\<close>

theorem malformed_body_requeued:
  assumes "JSON_parse e (content msg) = None"
  shows "onMessage e (Some msg) s =
           s\<lparr>logs := logs s @ [Log Error (''Error processing audit event: '' @ routingKey msg) ''message_error''],
             settled := settled s @ [Nack msg False True]\<rparr>"
  using assms by (simp add: onMessage_def onError_def logger_def Let_def)

theorem malformed_body_requeued_witness:
  "JSON_parse sampleEnv (content \<lparr>routingKey = ''order.created'', content = ''not json''\<rparr>) = None
   \<and> onMessage sampleEnv (Some \<lparr>routingKey = ''order.created'', content = ''not json''\<rparr>) idle =
       \<lparr>messagesProcessed = 0,
        logs = [Log Error ''Error processing audit event: order.created'' ''message_error''],
        settled = [Nack \<lparr>routingKey = ''order.created'', content = ''not json''\<rparr> False True]\<rparr>"
proof -
  have h: "JSON_parse sampleEnv (content \<lparr>routingKey = ''order.created'', content = ''not json''\<rparr>) = None"
    by (simp add: sampleEnv_def)
  from malformed_body_requeued [OF h, of idle] h show ?thesis
    by (simp add: idle_def)
qed

text \<open>
  C8, as stated, fails: the body is parsed before the routing key is looked up, so a
  delivery with an unknown routing key and a body that does not parse is requeued, and
  no warning is logged.
\<close>

theorem unknown_topic_counterexample:
  "map_of TOPIC_HANDLERS ''unknown.topic'' = None
   \<and> settled (onMessage sampleEnv (Some \<lparr>routingKey = ''unknown.topic'', content = ''{broken''\<rparr>) idle)
       = [Nack \<lparr>routingKey = ''unknown.topic'', content = ''{broken''\<rparr> False True]
   \<and> logs (onMessage sampleEnv (Some \<lparr>routingKey = ''unknown.topic'', content = ''{broken''\<rparr>) idle)
       = [Log Error ''Error processing audit event: unknown.topic'' ''message_error'']"
  by (simp add: TOPIC_HANDLERS_def sampleEnv_def onMessage_def onError_def logger_def idle_def Let_def)

text \<open>
  C8, amended. A delivery whose body parses as JSON and whose routing key is neither a
  key of the dispatch table nor the name of a member inherited from \<open>Object.prototype\<close>
  is acknowledged after a warning, and is not negatively acknowledged.
\<close>

theorem unknown_topic_acknowledged:
  assumes "JSON_parse e (content msg) = Some event"
    and "map_of TOPIC_HANDLERS (routingKey msg) = None"
    and "routingKey msg \<notin> set Object_prototype_keys"
  shows "onMessage e (Some msg) s =
           s\<lparr>logs := logs s @ [Log Warn (''No handler for topic: '' @ routingKey msg) ''no_handler''],
             settled := settled s @ [Ack msg]\<rparr>"
  using assms by (simp add: onMessage_def lookupHandler_def logger_def Let_def)

theorem unknown_topic_acknowledged_witness:
  "JSON_parse sampleEnv (content \<lparr>routingKey = ''unknown.topic'', content = ''{}''\<rparr>) = Some (JObject [])
   \<and> map_of TOPIC_HANDLERS (routingKey \<lparr>routingKey = ''unknown.topic'', content = ''{}''\<rparr>) = None
   \<and> routingKey \<lparr>routingKey = ''unknown.topic'', content = ''{}''\<rparr> \<notin> set Object_prototype_keys
   \<and> onMessage sampleEnv (Some \<lparr>routingKey = ''unknown.topic'', content = ''{}''\<rparr>) idle =
       \<lparr>messagesProcessed = 0,
        logs = [Log Warn ''No handler for topic: unknown.topic'' ''no_handler''],
        settled = [Ack \<lparr>routingKey = ''unknown.topic'', content = ''{}''\<rparr>]\<rparr>"
proof -
  have a: "JSON_parse sampleEnv (content \<lparr>routingKey = ''unknown.topic'', content = ''{}''\<rparr>) = Some (JObject [])"
    by (simp add: sampleEnv_def)
  have b: "map_of TOPIC_HANDLERS (routingKey \<lparr>routingKey = ''unknown.topic'', content = ''{}''\<rparr>) = None"
    by (simp add: TOPIC_HANDLERS_def)
  have c: "routingKey \<lparr>routingKey = ''unknown.topic'', content = ''{}''\<rparr> \<notin> set Object_prototype_keys"
    by (simp add: Object_prototype_keys_def)
  from unknown_topic_acknowledged [OF a b c, of idle] a b c show ?thesis
    by (simp add: idle_def)
qed

text \<open>
  A delivery with a registered routing key and a body that parses to anything but
  \<open>null\<close> is acknowledged and nothing else: the wrapper has absorbed any handler error.
\<close>

lemma registered_nonnull_acked:
  assumes "JSON_parse e (content msg) = Some event"
    and "map_of TOPIC_HANDLERS (routingKey msg) = Some eventName"
    and "event \<noteq> JNull" and "event \<noteq> JUndefined"
  shows "settled (onMessage e (Some msg) s) = settled s @ [Ack msg]"
  using assms
  by (cases event) (simp_all add: onMessage_def lookupHandler_def afterHandler_def eventIdOf_def
      handleEvent_def trackMessageProcessed_def logger_def Let_def split: sum.splits)

text \<open>
  C10 at the body \<open>null\<close>, which parses as JSON, on the registered routing key
  \<open>user.created\<close>: the wrapper absorbs the handler's TypeError and the delivery is
  acknowledged, but building the debug entry then reads \<open>event.id\<close> on \<open>null\<close>, the
  catch block is entered and the same delivery is also rejected with requeue.
\<close>

theorem null_body_acked_then_requeued:
  "JSON_parse sampleEnv ''null'' = Some JNull
   \<and> map_of TOPIC_HANDLERS ''user.created'' = Some ''user.created''
   \<and> settled (onMessage sampleEnv (Some \<lparr>routingKey = ''user.created'', content = ''null''\<rparr>) idle)
       = [Ack \<lparr>routingKey = ''user.created'', content = ''null''\<rparr>,
          Nack \<lparr>routingKey = ''user.created'', content = ''null''\<rparr> False True]"
  by (simp add: TOPIC_HANDLERS_def sampleEnv_def onMessage_def lookupHandler_def afterHandler_def
      eventIdOf_def handleEvent_def trackMessageProcessed_def onError_def logger_def idle_def Let_def)

section \<open>Pull mode: reconnection with backoff\<close>

lemma connectAndSubscribe_keeps:
  "reconnectAttempts (snd (connectAndSubscribe a s)) = reconnectAttempts s
   \<and> timers (snd (connectAndSubscribe a s)) = timers s
   \<and> scheduled (snd (connectAndSubscribe a s)) = scheduled s"
  by (cases a; cases "fst a"; cases "snd a")
     (simp_all add: connectAndSubscribe_def connect_def subscribe_def clogger_def)

lemma connectAndSubscribe_flag:
  "fst (connectAndSubscribe a s) = (\<not> attemptFails a)"
  by (cases a; cases "fst a"; cases "snd a")
     (simp_all add: connectAndSubscribe_def connect_def subscribe_def clogger_def attemptFails_def)

lemma handleReconnect_below_cap:
  assumes "reconnectAttempts s < maxReconnectAttempts"
  shows "reconnectAttempts (handleReconnect s) = Suc (reconnectAttempts s)"
    and "timers (handleReconnect s) = timers s @ [reconnectDelay * 2 ^ reconnectAttempts s]"
    and "scheduled (handleReconnect s) = scheduled s @ [reconnectDelay * 2 ^ reconnectAttempts s]"
  using assms by (simp_all add: handleReconnect_def clogger_def Let_def)

lemma reconnectCallback_failure:
  assumes "attemptFails a" and "reconnectAttempts s < maxReconnectAttempts"
  shows "reconnectAttempts (reconnectCallback a s) = Suc (reconnectAttempts s)"
    and "timers (reconnectCallback a s) = timers s @ [reconnectDelay * 2 ^ reconnectAttempts s]"
    and "scheduled (reconnectCallback a s) = scheduled s @ [reconnectDelay * 2 ^ reconnectAttempts s]"
proof -
  obtain b s1 where cs: "connectAndSubscribe a s = (b, s1)" by (cases "connectAndSubscribe a s")
  from connectAndSubscribe_flag [of a s] cs assms(1) have b: "b = False" by simp
  from connectAndSubscribe_keeps [of a s] cs
  have k: "reconnectAttempts s1 = reconnectAttempts s" "timers s1 = timers s" "scheduled s1 = scheduled s"
    by simp_all
  let ?s2 = "clogger Error ''Reconnection failed'' ''reconnect_error'' s1"
  have k2: "reconnectAttempts ?s2 = reconnectAttempts s" "timers ?s2 = timers s" "scheduled ?s2 = scheduled s"
    using k by (simp_all add: clogger_def)
  have r: "reconnectCallback a s = handleReconnect ?s2"
    using cs b by (simp add: reconnectCallback_def)
  from assms(2) k2 have lt: "reconnectAttempts ?s2 < maxReconnectAttempts" by simp
  show "reconnectAttempts (reconnectCallback a s) = Suc (reconnectAttempts s)"
    using handleReconnect_below_cap(1) [OF lt] r k2 by simp
  show "timers (reconnectCallback a s) = timers s @ [reconnectDelay * 2 ^ reconnectAttempts s]"
    using handleReconnect_below_cap(2) [OF lt] r k2 by simp
  show "scheduled (reconnectCallback a s) = scheduled s @ [reconnectDelay * 2 ^ reconnectAttempts s]"
    using handleReconnect_below_cap(3) [OF lt] r k2 by simp
qed

lemma reconnectCallback_success:
  assumes "\<not> attemptFails a"
  shows "reconnectAttempts (reconnectCallback a s) = 0"
proof -
  obtain b s1 where cs: "connectAndSubscribe a s = (b, s1)" by (cases "connectAndSubscribe a s")
  from connectAndSubscribe_flag [of a s] cs assms have "b = True" by simp
  with cs show ?thesis by (simp add: reconnectCallback_def clogger_def)
qed

lemma start_failure:
  assumes "attemptFails a" and "reconnectAttempts s < maxReconnectAttempts"
  shows "reconnectAttempts (start a s) = Suc (reconnectAttempts s)"
    and "timers (start a s) = timers s @ [reconnectDelay * 2 ^ reconnectAttempts s]"
    and "scheduled (start a s) = scheduled s @ [reconnectDelay * 2 ^ reconnectAttempts s]"
proof -
  obtain b s1 where cs: "connectAndSubscribe a s = (b, s1)" by (cases "connectAndSubscribe a s")
  from connectAndSubscribe_flag [of a s] cs assms(1) have b: "b = False" by simp
  from connectAndSubscribe_keeps [of a s] cs
  have k: "reconnectAttempts s1 = reconnectAttempts s" "timers s1 = timers s" "scheduled s1 = scheduled s"
    by simp_all
  let ?s2 = "clogger Error ''Failed to start RabbitMQ consumer'' ''consumer_start'' s1"
  have k2: "reconnectAttempts ?s2 = reconnectAttempts s" "timers ?s2 = timers s" "scheduled ?s2 = scheduled s"
    using k by (simp_all add: clogger_def)
  have r: "start a s = handleReconnect ?s2"
    using cs b by (simp add: start_def)
  from assms(2) k2 have lt: "reconnectAttempts ?s2 < maxReconnectAttempts" by simp
  show "reconnectAttempts (start a s) = Suc (reconnectAttempts s)"
    using handleReconnect_below_cap(1) [OF lt] r k2 by simp
  show "timers (start a s) = timers s @ [reconnectDelay * 2 ^ reconnectAttempts s]"
    using handleReconnect_below_cap(2) [OF lt] r k2 by simp
  show "scheduled (start a s) = scheduled s @ [reconnectDelay * 2 ^ reconnectAttempts s]"
    using handleReconnect_below_cap(3) [OF lt] r k2 by simp
qed

lemma fireAll_no_timer:
  assumes "timers s = []"
  shows "fireAll outcomes s = s"
  using assms by (induction outcomes) (simp_all add: fireTimer_def)

lemma reconnectCallback_at_cap:
  assumes "attemptFails a" and "reconnectAttempts s = maxReconnectAttempts"
  shows "reconnectAttempts (reconnectCallback a s) = maxReconnectAttempts"
    and "timers (reconnectCallback a s) = timers s"
    and "scheduled (reconnectCallback a s) = scheduled s"
proof -
  obtain b s1 where cs: "connectAndSubscribe a s = (b, s1)" by (cases "connectAndSubscribe a s")
  from connectAndSubscribe_flag [of a s] cs assms(1) have b: "b = False" by simp
  from connectAndSubscribe_keeps [of a s] cs
  have k: "reconnectAttempts s1 = reconnectAttempts s" "timers s1 = timers s" "scheduled s1 = scheduled s"
    by simp_all
  have r: "reconnectCallback a s =
             clogger Error ''Max reconnection attempts reached'' ''reconnect_failed''
               (clogger Error ''Reconnection failed'' ''reconnect_error'' s1)"
    using cs b k assms(2) by (simp add: reconnectCallback_def handleReconnect_def clogger_def)
  show "reconnectAttempts (reconnectCallback a s) = maxReconnectAttempts"
    using r k assms(2) by (simp add: clogger_def)
  show "timers (reconnectCallback a s) = timers s"
    using r k by (simp add: clogger_def)
  show "scheduled (reconnectCallback a s) = scheduled s"
    using r k by (simp add: clogger_def)
qed

lemma fireAll_failures:
  assumes "\<forall>a\<in>set outcomes. attemptFails a"
    and "length (timers s) = 1"
    and "reconnectAttempts s \<le> maxReconnectAttempts"
  shows "scheduled (fireAll outcomes s) =
           scheduled s @ map (\<lambda>n. reconnectDelay * 2 ^ (n - 1))
             [Suc (reconnectAttempts s)..<Suc (min (reconnectAttempts s + length outcomes) maxReconnectAttempts)]
         \<and> reconnectAttempts (fireAll outcomes s) = min (reconnectAttempts s + length outcomes) maxReconnectAttempts
         \<and> (reconnectAttempts s + length outcomes \<le> maxReconnectAttempts
               \<longrightarrow> length (timers (fireAll outcomes s)) = 1)"
  using assms
proof (induction outcomes arbitrary: s)
  case Nil
  then show ?case by simp
next
  case (Cons a rest)
  let ?s0 = "s\<lparr>timers := take 0 (timers s) @ drop (Suc 0) (timers s)\<rparr>"
  let ?s1 = "fireTimer 0 a s"
  from Cons.prems have fa: "attemptFails a" by simp
  have f: "?s1 = reconnectCallback a ?s0"
    using Cons.prems(2) by (simp add: fireTimer_def)
  have t0: "timers ?s0 = []" using Cons.prems(2) by simp
  show ?case
  proof (cases "reconnectAttempts s < maxReconnectAttempts")
    case True
    then have lt: "reconnectAttempts ?s0 < maxReconnectAttempts" by simp
    have n1: "reconnectAttempts ?s1 = Suc (reconnectAttempts s)"
      using reconnectCallback_failure(1) [OF fa lt] f by simp
    have t1: "length (timers ?s1) = 1"
      using reconnectCallback_failure(2) [OF fa lt] f t0 by simp
    have sc1: "scheduled ?s1 = scheduled s @ [reconnectDelay * 2 ^ reconnectAttempts s]"
      using reconnectCallback_failure(3) [OF fa lt] f by simp
    have p1: "\<forall>a\<in>set rest. attemptFails a" using Cons.prems(1) by simp
    have p3: "reconnectAttempts ?s1 \<le> maxReconnectAttempts" using True n1 by simp
    note ih = Cons.IH [OF p1 t1 p3]
    define top where "top = Suc (min (reconnectAttempts s + length (a # rest)) maxReconnectAttempts)"
    have m: "Suc (min (reconnectAttempts ?s1 + length rest) maxReconnectAttempts) = top"
      using n1 by (simp add: top_def)
    have lt2: "Suc (reconnectAttempts s) < top"
      using True by (simp add: top_def)
    have u: "[Suc (reconnectAttempts s)..<top]
             = Suc (reconnectAttempts s) # [Suc (Suc (reconnectAttempts s))..<top]"
      using upt_conv_Cons [OF lt2] .
    from ih have "scheduled (fireAll rest ?s1) =
           scheduled ?s1 @ map (\<lambda>n. reconnectDelay * 2 ^ (n - 1))
             [Suc (reconnectAttempts ?s1)..<Suc (min (reconnectAttempts ?s1 + length rest) maxReconnectAttempts)]"
      by blast
    then have "scheduled (fireAll rest ?s1) =
           scheduled ?s1 @ map (\<lambda>n. reconnectDelay * 2 ^ (n - 1)) [Suc (reconnectAttempts ?s1)..<top]"
      unfolding m .
    then have "scheduled (fireAll rest ?s1) =
           (scheduled s @ [reconnectDelay * 2 ^ reconnectAttempts s]) @
             map (\<lambda>n. reconnectDelay * 2 ^ (n - 1)) [Suc (Suc (reconnectAttempts s))..<top]"
      unfolding n1 sc1 .
    then have "scheduled (fireAll (a # rest) s) =
           scheduled s @ map (\<lambda>n. reconnectDelay * 2 ^ (n - 1)) [Suc (reconnectAttempts s)..<top]"
      unfolding u by simp
    then have A: "scheduled (fireAll (a # rest) s) =
           scheduled s @ map (\<lambda>n. reconnectDelay * 2 ^ (n - 1))
             [Suc (reconnectAttempts s)..<Suc (min (reconnectAttempts s + length (a # rest)) maxReconnectAttempts)]"
      unfolding top_def .
    have B: "reconnectAttempts (fireAll (a # rest) s) = min (reconnectAttempts s + length (a # rest)) maxReconnectAttempts"
      using ih n1 by simp
    have C: "reconnectAttempts s + length (a # rest) \<le> maxReconnectAttempts
               \<longrightarrow> length (timers (fireAll (a # rest) s)) = 1"
      using ih n1 by simp
    from A B C show ?thesis by blast
  next
    case False
    with Cons.prems(3) have eq: "reconnectAttempts ?s0 = maxReconnectAttempts" by simp
    have n1: "reconnectAttempts ?s1 = maxReconnectAttempts"
      using reconnectCallback_at_cap(1) [OF fa eq] f by simp
    have t1: "timers ?s1 = []"
      using reconnectCallback_at_cap(2) [OF fa eq] f t0 by simp
    have sc1: "scheduled ?s1 = scheduled s"
      using reconnectCallback_at_cap(3) [OF fa eq] f by simp
    have r: "fireAll (a # rest) s = ?s1"
      using fireAll_no_timer [OF t1] by simp
    from eq have eq': "reconnectAttempts s = maxReconnectAttempts" by simp
    show ?thesis unfolding r using n1 sc1 eq' by simp
  qed
qed

text \<open>
  C4. When \<open>start()\<close> and the reconnections after it fail, one after the other, the
  delay scheduled for attempt \<open>n\<close> is \<open>reconnectDelay * 2 ^ (n - 1)\<close>, for every
  sequence of failures (after attempt \<open>maxReconnectAttempts\<close> nothing more is scheduled);
  a reconnection that succeeds while a timer is still armed sets the attempt counter to 0.
\<close>

theorem reconnect_backoff:
  assumes "outcomes \<noteq> []"
    and "\<forall>a\<in>set outcomes. attemptFails a"
  shows "scheduled (startThenRetry outcomes newConsumer) =
           map (\<lambda>n. reconnectDelay * 2 ^ (n - 1))
             [1..<Suc (min (length outcomes) maxReconnectAttempts)]
         \<and> reconnectAttempts (startThenRetry outcomes newConsumer)
             = min (length outcomes) maxReconnectAttempts
         \<and> (length outcomes \<le> maxReconnectAttempts \<and> \<not> attemptFails ok \<longrightarrow>
               reconnectAttempts (fireTimer 0 ok (startThenRetry outcomes newConsumer)) = 0)"
proof -
  from assms(1) obtain a rest where o: "outcomes = a # rest" by (cases outcomes) auto
  let ?s1 = "start a newConsumer"
  have fa: "attemptFails a" using assms(2) o by simp
  have lt: "reconnectAttempts newConsumer < maxReconnectAttempts"
    by (simp add: newConsumer_def maxReconnectAttempts_def)
  have n0: "reconnectAttempts newConsumer = 0" "timers newConsumer = []" "scheduled newConsumer = []"
    by (simp_all add: newConsumer_def)
  have n1: "reconnectAttempts ?s1 = 1" using start_failure(1) [OF fa lt] n0 by simp
  have t1: "length (timers ?s1) = 1" using start_failure(2) [OF fa lt] n0 by simp
  have sc1: "scheduled ?s1 = [reconnectDelay]" using start_failure(3) [OF fa lt] n0 by simp
  have p1: "\<forall>a\<in>set rest. attemptFails a" using assms(2) o by simp
  have p3: "reconnectAttempts ?s1 \<le> maxReconnectAttempts"
    using n1 by (simp add: maxReconnectAttempts_def)
  have r: "startThenRetry outcomes newConsumer = fireAll rest ?s1"
    using o by (simp add: startThenRetry_def)
  define top where "top = Suc (min (length outcomes) maxReconnectAttempts)"
  have m: "Suc (min (reconnectAttempts ?s1 + length rest) maxReconnectAttempts) = top"
    using n1 o by (simp add: top_def)
  note fl = fireAll_failures [OF p1 t1 p3]
  have lt2: "1 < top"
    using o by (simp add: top_def maxReconnectAttempts_def)
  have u: "[1..<top] = 1 # [Suc 1..<top]"
    using upt_conv_Cons [OF lt2] .
  from fl have "scheduled (fireAll rest ?s1) =
           scheduled ?s1 @ map (\<lambda>n. reconnectDelay * 2 ^ (n - 1))
             [Suc (reconnectAttempts ?s1)..<Suc (min (reconnectAttempts ?s1 + length rest) maxReconnectAttempts)]"
    by blast
  then have "scheduled (fireAll rest ?s1) =
           scheduled ?s1 @ map (\<lambda>n. reconnectDelay * 2 ^ (n - 1)) [Suc (reconnectAttempts ?s1)..<top]"
    unfolding m .
  then have "scheduled (fireAll rest ?s1) =
           [reconnectDelay] @ map (\<lambda>n. reconnectDelay * 2 ^ (n - 1)) [Suc 1..<top]"
    unfolding n1 sc1 .
  then have "scheduled (startThenRetry outcomes newConsumer) =
           map (\<lambda>n. reconnectDelay * 2 ^ (n - 1)) [1..<top]"
    unfolding u r by simp
  then have A: "scheduled (startThenRetry outcomes newConsumer) =
           map (\<lambda>n. reconnectDelay * 2 ^ (n - 1)) [1..<Suc (min (length outcomes) maxReconnectAttempts)]"
    unfolding top_def .
  have B: "reconnectAttempts (startThenRetry outcomes newConsumer) = min (length outcomes) maxReconnectAttempts"
    unfolding r using fl n1 o by simp
  have C: "length outcomes \<le> maxReconnectAttempts \<and> \<not> attemptFails ok \<longrightarrow>
               reconnectAttempts (fireTimer 0 ok (startThenRetry outcomes newConsumer)) = 0"
  proof
    assume h: "length outcomes \<le> maxReconnectAttempts \<and> \<not> attemptFails ok"
    then have "reconnectAttempts ?s1 + length rest \<le> maxReconnectAttempts" using n1 o by simp
    with fl have "length (timers (fireAll rest ?s1)) = 1" by simp
    then show "reconnectAttempts (fireTimer 0 ok (startThenRetry outcomes newConsumer)) = 0"
      unfolding r using reconnectCallback_success [of ok] h by (simp add: fireTimer_def)
  qed
  from A B C show ?thesis by blast
qed

text \<open>Three failures of different kinds, then a success: 5000, 10000 and 20000 ms.\<close>

theorem reconnect_backoff_witness:
  "scheduled (startThenRetry [(ConnectThrows, Subscribed), (Connected, SubscribeThrows), (SetupThrows, Subscribed)] newConsumer)
     = [5000, 10000, 20000]
   \<and> reconnectAttempts (startThenRetry [(ConnectThrows, Subscribed), (Connected, SubscribeThrows), (SetupThrows, Subscribed)] newConsumer) = 3
   \<and> reconnectAttempts (fireTimer 0 (Connected, Subscribed)
        (startThenRetry [(ConnectThrows, Subscribed), (Connected, SubscribeThrows), (SetupThrows, Subscribed)] newConsumer)) = 0"
proof -
  let ?os = "[(ConnectThrows, Subscribed), (Connected, SubscribeThrows), (SetupThrows, Subscribed)]"
  have a: "?os \<noteq> []" by simp
  have b: "\<forall>a\<in>set ?os. attemptFails a" by (simp add: attemptFails_def)
  have c: "length ?os \<le> maxReconnectAttempts \<and> \<not> attemptFails (Connected, Subscribed)"
    by (simp add: maxReconnectAttempts_def attemptFails_def)
  have u: "[1..<Suc (min (length ?os) maxReconnectAttempts)] = [1, 2, 3]"
    by (simp add: upt_rec maxReconnectAttempts_def)
  from reconnect_backoff [OF a b, of "(Connected, Subscribed)"] c u show ?thesis
    by (simp add: reconnectDelay_def maxReconnectAttempts_def)
qed

section \<open>Pull mode: exhausting the reconnection attempts\<close>

text \<open>The definitions a run of the consumer unfolds to.\<close>

lemmas run_defs = start_def fireTimer_def reconnectCallback_def connectAndSubscribe_def connect_def
        subscribe_def clogger_def handleReconnect_def Let_def

lemma fireAll_append: "fireAll (xs @ ys) s = fireAll ys (fireAll xs s)"
  by (induction xs arbitrary: s) simp_all

lemma leaking_retry_step:
  assumes "length (timers s) = 1" and "reconnectAttempts s < maxReconnectAttempts"
  shows "connection (fireTimer 0 (Connected, SubscribeThrows) s) = Some (opened s)
         \<and> channel (fireTimer 0 (Connected, SubscribeThrows) s) = Some (opened s)
         \<and> opened (fireTimer 0 (Connected, SubscribeThrows) s) = Suc (opened s)
         \<and> reconnectAttempts (fireTimer 0 (Connected, SubscribeThrows) s) = Suc (reconnectAttempts s)
         \<and> length (timers (fireTimer 0 (Connected, SubscribeThrows) s)) = 1
         \<and> closeOps (fireTimer 0 (Connected, SubscribeThrows) s) = closeOps s"
  using assms by (simp add: run_defs)

lemma leaking_retries:
  assumes "length (timers s) = 1" and "reconnectAttempts s + k \<le> maxReconnectAttempts"
  shows "opened (fireAll (replicate k (Connected, SubscribeThrows)) s) = opened s + k
         \<and> reconnectAttempts (fireAll (replicate k (Connected, SubscribeThrows)) s) = reconnectAttempts s + k
         \<and> length (timers (fireAll (replicate k (Connected, SubscribeThrows)) s)) = 1
         \<and> closeOps (fireAll (replicate k (Connected, SubscribeThrows)) s) = closeOps s"
  using assms
proof (induction k arbitrary: s)
  case 0
  then show ?case by simp
next
  case (Suc k)
  let ?s1 = "fireTimer 0 (Connected, SubscribeThrows) s"
  from Suc.prems have lt: "reconnectAttempts s < maxReconnectAttempts" by simp
  note st = leaking_retry_step [OF Suc.prems(1) lt]
  from st have t1: "length (timers ?s1) = 1" by simp
  from st Suc.prems(2) have b1: "reconnectAttempts ?s1 + k \<le> maxReconnectAttempts" by simp
  from Suc.IH [OF t1 b1] st show ?case by simp
qed

lemma cap_step:
  assumes "length (timers s) = 1" and "reconnectAttempts s = maxReconnectAttempts"
  shows "connection (fireTimer 0 (Connected, SubscribeThrows) s) = Some (opened s)
         \<and> channel (fireTimer 0 (Connected, SubscribeThrows) s) = Some (opened s)
         \<and> reconnectAttempts (fireTimer 0 (Connected, SubscribeThrows) s) = maxReconnectAttempts
         \<and> timers (fireTimer 0 (Connected, SubscribeThrows) s) = []
         \<and> closeOps (fireTimer 0 (Connected, SubscribeThrows) s) = closeOps s
         \<and> last (clogs (fireTimer 0 (Connected, SubscribeThrows) s))
             = Log Error ''Max reconnection attempts reached'' ''reconnect_failed''"
  using assms by (cases "timers s") (simp_all add: run_defs)

lemma first_start:
  "opened (start (Connected, SubscribeThrows) newConsumer) = 1
   \<and> reconnectAttempts (start (Connected, SubscribeThrows) newConsumer) = 1
   \<and> length (timers (start (Connected, SubscribeThrows) newConsumer)) = 1
   \<and> closeOps (start (Connected, SubscribeThrows) newConsumer) = []"
  by (simp add: run_defs newConsumer_def maxReconnectAttempts_def)

lemma replicate_11: "replicate 11 x = x # replicate 9 x @ [x]"
proof -
  have "(11::nat) = Suc (9 + 1)" by simp
  then have "replicate 11 x = replicate (Suc (9 + 1)) x" by (rule arg_cong)
  also have "\<dots> = x # replicate (9 + 1) x" by (rule replicate_Suc)
  also have "replicate (9 + 1) x = replicate 9 x @ replicate 1 x" by (rule replicate_add)
  finally show ?thesis by simp
qed

text \<open>
  C2, as stated, fails: after the tenth reconnection has failed the consumer logs the
  error and arms no timer, but it is not terminated. Here every attempt opens a
  connection and a channel and then fails to subscribe; at the cap the last channel and
  connection are still held and no close call has been made.
\<close>

theorem cap_reached_counterexample:
  "reconnectAttempts (startThenRetry (replicate 11 (Connected, SubscribeThrows)) newConsumer) = maxReconnectAttempts
   \<and> last (clogs (startThenRetry (replicate 11 (Connected, SubscribeThrows)) newConsumer))
       = Log Error ''Max reconnection attempts reached'' ''reconnect_failed''
   \<and> timers (startThenRetry (replicate 11 (Connected, SubscribeThrows)) newConsumer) = []
   \<and> connection (startThenRetry (replicate 11 (Connected, SubscribeThrows)) newConsumer) = Some 10
   \<and> channel (startThenRetry (replicate 11 (Connected, SubscribeThrows)) newConsumer) = Some 10
   \<and> closeOps (startThenRetry (replicate 11 (Connected, SubscribeThrows)) newConsumer) = []
   \<and> \<not> released (startThenRetry (replicate 11 (Connected, SubscribeThrows)) newConsumer)"
proof -
  let ?a = "(Connected, SubscribeThrows)"
  let ?s1 = "start ?a newConsumer"
  let ?s10 = "fireAll (replicate 9 ?a) ?s1"
  have run: "startThenRetry (replicate 11 ?a) newConsumer = fireTimer 0 ?a ?s10"
    by (simp add: startThenRetry_def replicate_11 fireAll_append)
  have t1: "length (timers ?s1) = 1" using first_start by simp
  have b1: "reconnectAttempts ?s1 + 9 \<le> maxReconnectAttempts"
    using first_start by (simp add: maxReconnectAttempts_def)
  from leaking_retries [OF t1 b1] first_start
  have s10: "opened ?s10 = 10" "reconnectAttempts ?s10 = maxReconnectAttempts"
    "length (timers ?s10) = 1" "closeOps ?s10 = []"
    by (simp_all add: maxReconnectAttempts_def)
  from cap_step [OF s10(3) s10(2)] s10 run show ?thesis
    by (simp add: released_def)
qed

text \<open>
  C2, amended. When the attempt counter has reached \<open>maxReconnectAttempts\<close>,
  \<open>handleReconnect\<close> logs 'Max reconnection attempts reached' at error level and
  returns: no reconnection is scheduled and nothing else in the consumer changes.
\<close>

theorem cap_reached_only_logs:
  assumes "reconnectAttempts s \<ge> maxReconnectAttempts"
  shows "handleReconnect s =
           s\<lparr>clogs := clogs s @ [Log Error ''Max reconnection attempts reached'' ''reconnect_failed'']\<rparr>"
  using assms by (simp add: handleReconnect_def clogger_def)


theorem cap_reached_only_logs_witness:
  "reconnectAttempts (newConsumer\<lparr>reconnectAttempts := 10\<rparr>) \<ge> maxReconnectAttempts
   \<and> handleReconnect (newConsumer\<lparr>reconnectAttempts := 10\<rparr>) =
       \<lparr>connection = None, channel = None, reconnectAttempts = 10, timers = [],
        scheduled = [], opened = 0, closeOps = [], listening = [], closed = [],
        clogs = [Log Error ''Max reconnection attempts reached'' ''reconnect_failed'']\<rparr>"
proof -
  have h: "reconnectAttempts (newConsumer\<lparr>reconnectAttempts := 10\<rparr>) \<ge> maxReconnectAttempts"
    by (simp add: maxReconnectAttempts_def)
  from cap_reached_only_logs [OF h] h show ?thesis
    by (simp add: newConsumer_def)
qed

section \<open>Pull mode: shutdown\<close>

text \<open>\<open>stop()\<close> removes no timer, whether or not its close calls throw.\<close>

lemma handleReconnect_timers:
  "timers (handleReconnect s) =
     timers s @ (if reconnectAttempts s < maxReconnectAttempts
                 then [reconnectDelay * 2 ^ reconnectAttempts s] else [])"
  by (simp add: handleReconnect_def clogger_def Let_def)

lemma emitClose_timers:
  "timers (emitClose c s) =
     timers s @ (if c \<in> set (listening s) \<and> reconnectAttempts s < maxReconnectAttempts
                 then [reconnectDelay * 2 ^ reconnectAttempts s] else [])"
  by (simp add: emitClose_def onConnectionClose_def handleReconnect_timers clogger_def)

lemma emitClose_opened: "opened (emitClose c s) = opened s"
  by (simp add: emitClose_def onConnectionClose_def handleReconnect_def clogger_def Let_def)

lemma stop_timers_prefix:
  "\<exists>extra. timers (stop channelCloseThrows connectionCloseThrows s) = timers s @ extra"
  by (simp add: stop_def stopConnection_def stopFailed_def clogger_def emitClose_timers
      split: option.splits)

lemma stop_opened: "opened (stop channelCloseThrows connectionCloseThrows s) = opened s"
  by (simp add: stop_def stopConnection_def stopFailed_def clogger_def emitClose_opened
      split: option.splits)

lemma fireTimer_success:
  assumes "i < length (timers s)"
  shows "connection (fireTimer i (Connected, Subscribed) s) = Some (opened s)
         \<and> channel (fireTimer i (Connected, Subscribed) s) = Some (opened s)
         \<and> reconnectAttempts (fireTimer i (Connected, Subscribed) s) = 0
         \<and> timers (fireTimer i (Connected, Subscribed) s) = take i (timers s) @ drop (Suc i) (timers s)"
  using assms
  by (simp add: fireTimer_def reconnectCallback_def connectAndSubscribe_def connect_def
      subscribe_def clogger_def)

text \<open>After the broker has closed the connection, \<open>stop()\<close> fails at its first close call.\<close>

lemma stop_after_drop:
  assumes "channel s = Some ch" and "ch \<in> set (closed s)"
  shows "stop channelCloseThrows connectionCloseThrows s = stopFailed s"
  using assms by (simp add: stop_def)

text \<open>
  C3, as stated, fails: a consumer that has started is stopped; both closes succeed and
  channel and connection are released, but closing the connection runs the close
  listener, which schedules a reconnection. The timer is armed when \<open>stop()\<close> has
  completed, and when it fires it opens a new connection and channel.
\<close>

theorem stop_counterexample:
  "released (stop False False (start (Connected, Subscribed) newConsumer))
   \<and> closeOps (stop False False (start (Connected, Subscribed) newConsumer))
       = [ChannelClosed 0, ConnectionClosed 0]
   \<and> timers (stop False False (start (Connected, Subscribed) newConsumer)) = [5000]
   \<and> connection (fireTimer 0 (Connected, Subscribed)
        (stop False False (start (Connected, Subscribed) newConsumer))) = Some 1
   \<and> channel (fireTimer 0 (Connected, Subscribed)
        (stop False False (start (Connected, Subscribed) newConsumer))) = Some 1"
  by (simp add: run_defs newConsumer_def maxReconnectAttempts_def released_def stop_def
      stopConnection_def emitClose_def onConnectionClose_def reconnectDelay_def)

text \<open>
  C3, amended. \<open>stop()\<close> cancels no reconnect timer: every timer armed before it is armed
  after it. When the consumer holds an open channel and connection and neither close
  throws, \<open>stop()\<close> closes the channel, then the connection, and clears both fields;
  closing a connection on which \<open>connect()\<close> registered its listener runs
  \<open>handleReconnect\<close>, which below the attempt cap arms one more timer. A timer that fires
  after \<open>stop()\<close> connects and subscribes as usual: if both succeed the consumer holds a
  new connection and channel and its attempt counter is 0.
\<close>

theorem stop_leaves_timer_armed:
  "(\<exists>extra. timers (stop channelCloseThrows connectionCloseThrows s) = timers s @ extra)
   \<and> (channel s = Some ch \<and> connection s = Some c \<and> ch \<notin> set (closed s) \<and> c \<notin> set (closed s) \<longrightarrow>
         closeOps (stop False False s) = closeOps s @ [ChannelClosed ch, ConnectionClosed c]
         \<and> channel (stop False False s) = None
         \<and> connection (stop False False s) = None
         \<and> timers (stop False False s) =
             timers s @ (if c \<in> set (listening s) \<and> reconnectAttempts s < maxReconnectAttempts
                         then [reconnectDelay * 2 ^ reconnectAttempts s] else [])
         \<and> reconnectAttempts (stop False False s) =
             (if c \<in> set (listening s) \<and> reconnectAttempts s < maxReconnectAttempts
              then Suc (reconnectAttempts s) else reconnectAttempts s))
   \<and> (i < length (timers (stop channelCloseThrows connectionCloseThrows s)) \<longrightarrow>
         connection (fireTimer i (Connected, Subscribed)
                       (stop channelCloseThrows connectionCloseThrows s)) = Some (opened s)
         \<and> channel (fireTimer i (Connected, Subscribed)
                       (stop channelCloseThrows connectionCloseThrows s)) = Some (opened s)
         \<and> reconnectAttempts (fireTimer i (Connected, Subscribed)
                       (stop channelCloseThrows connectionCloseThrows s)) = 0)"
proof (intro conjI impI)
  show "\<exists>extra. timers (stop channelCloseThrows connectionCloseThrows s) = timers s @ extra"
    by (rule stop_timers_prefix)
next
  assume h: "channel s = Some ch \<and> connection s = Some c \<and> ch \<notin> set (closed s) \<and> c \<notin> set (closed s)"
  let ?s1 = "s\<lparr>closeOps := closeOps s @ [ChannelClosed ch], channel := None\<rparr>"
  let ?s2 = "?s1\<lparr>closeOps := closeOps ?s1 @ [ConnectionClosed c], closed := closed ?s1 @ [c]\<rparr>"
  have st: "stop False False s =
              clogger Info ''RabbitMQ consumer stopped'' ''consumer_stop''
                ((emitClose c ?s2)\<lparr>connection := None\<rparr>)"
    using h by (simp add: stop_def stopConnection_def)
  have ec: "closeOps (emitClose c ?s2) = closeOps s @ [ChannelClosed ch, ConnectionClosed c]"
    "channel (emitClose c ?s2) = None"
    by (simp_all add: emitClose_def onConnectionClose_def handleReconnect_def clogger_def Let_def)
  show "closeOps (stop False False s) = closeOps s @ [ChannelClosed ch, ConnectionClosed c]"
    using st ec by (simp add: clogger_def)
  show "channel (stop False False s) = None"
    using st ec by (simp add: clogger_def)
  show "connection (stop False False s) = None"
    using st by (simp add: clogger_def)
  show "timers (stop False False s) =
          timers s @ (if c \<in> set (listening s) \<and> reconnectAttempts s < maxReconnectAttempts
                      then [reconnectDelay * 2 ^ reconnectAttempts s] else [])"
    using st emitClose_timers [of c ?s2] by (simp add: clogger_def)
  show "reconnectAttempts (stop False False s) =
          (if c \<in> set (listening s) \<and> reconnectAttempts s < maxReconnectAttempts
           then Suc (reconnectAttempts s) else reconnectAttempts s)"
    using st
    by (simp add: emitClose_def onConnectionClose_def handleReconnect_def clogger_def Let_def)
next
  assume i: "i < length (timers (stop channelCloseThrows connectionCloseThrows s))"
  from fireTimer_success [OF i] stop_opened [of channelCloseThrows connectionCloseThrows s]
  show "connection (fireTimer i (Connected, Subscribed)
                       (stop channelCloseThrows connectionCloseThrows s)) = Some (opened s)"
    and "channel (fireTimer i (Connected, Subscribed)
                       (stop channelCloseThrows connectionCloseThrows s)) = Some (opened s)"
    and "reconnectAttempts (fireTimer i (Connected, Subscribed)
                       (stop channelCloseThrows connectionCloseThrows s)) = 0"
    by simp_all
qed

text \<open>
  \<open>start()\<close> connects but fails to subscribe, which arms a first timer; \<open>stop()\<close> then
  closes channel 0 and connection 0, and the close listener arms a second one.
\<close>

theorem stop_leaves_timer_armed_witness:
  "channel (start (Connected, SubscribeThrows) newConsumer) = Some 0
   \<and> connection (start (Connected, SubscribeThrows) newConsumer) = Some 0
   \<and> 0 \<notin> set (closed (start (Connected, SubscribeThrows) newConsumer))
   \<and> timers (start (Connected, SubscribeThrows) newConsumer) = [5000]
   \<and> closeOps (stop False False (start (Connected, SubscribeThrows) newConsumer))
       = [ChannelClosed 0, ConnectionClosed 0]
   \<and> timers (stop False False (start (Connected, SubscribeThrows) newConsumer)) = [5000, 10000]
   \<and> 0 < length (timers (stop False False (start (Connected, SubscribeThrows) newConsumer)))
   \<and> connection (fireTimer 0 (Connected, Subscribed)
         (stop False False (start (Connected, SubscribeThrows) newConsumer))) = Some 1
   \<and> reconnectAttempts (fireTimer 0 (Connected, Subscribed)
         (stop False False (start (Connected, SubscribeThrows) newConsumer))) = 0"
proof -
  let ?s = "start (Connected, SubscribeThrows) newConsumer"
  have f: "channel ?s = Some 0" "connection ?s = Some 0" "closed ?s = []" "timers ?s = [5000]"
    "listening ?s = [0]" "reconnectAttempts ?s = 1" "closeOps ?s = []" "opened ?s = 1"
    by (simp_all add: run_defs newConsumer_def maxReconnectAttempts_def reconnectDelay_def)
  have h: "channel ?s = Some 0 \<and> connection ?s = Some 0 \<and> 0 \<notin> set (closed ?s) \<and> 0 \<notin> set (closed ?s)"
    using f by simp
  note t = stop_leaves_timer_armed [of False False ?s 0 0 0]
  from t h f have A: "closeOps (stop False False ?s) = [ChannelClosed 0, ConnectionClosed 0]"
    and B: "timers (stop False False ?s) = [5000, 10000]"
    by (simp_all add: maxReconnectAttempts_def reconnectDelay_def)
  from B have C: "0 < length (timers (stop False False ?s))" by simp
  from t C f have D: "connection (fireTimer 0 (Connected, Subscribed) (stop False False ?s)) = Some 1"
    and E: "reconnectAttempts (fireTimer 0 (Connected, Subscribed) (stop False False ?s)) = 0"
    by simp_all
  from f A B C D E show ?thesis by simp
qed

section \<open>Migration runner: the session\<close>


lemma aborted_store: "aborted (store c d) = aborted c"
  by (simp add: store_def split: option.splits)

lemma query_begin:
  assumes "noTransaction c"
  shows "query e [Begin] c = (None, c\<lparr>txn := Some (committed c)\<rparr>)"
  using assms by (simp add: query_def noTransaction_def)

lemma query_rollback:
  "query e [Rollback] c = (None, \<lparr>committed = committed c, txn = None, aborted = False\<rparr>)"
  by (simp add: query_def view_def split: option.splits)

lemma query_commit:
  assumes "\<not> aborted c"
  shows "query e [Commit] c = (None, \<lparr>committed = view c, txn = None, aborted = False\<rparr>)"
  using assms by (simp add: query_def view_def Let_def split: option.splits)

lemma rollbackAndThrow_result:
  "rollbackAndThrow e err c = (Some err, \<lparr>committed = committed c, txn = None, aborted = False\<rparr>)"
  by (simp add: rollbackAndThrow_def query_rollback)

text \<open>
  No statement of a body writes the history table, and a message that ends without an
  error does not leave its block aborted.
\<close>

lemma exec_history:
  assumes "exec e stmts implicit c = (r, c')"
    and "txn c = Some w" and "migration_history w = H"
    and "migration_history (committed c) = H"
  shows "migration_history (committed c') = H \<and> migration_history (view c') = H"
  using assms
proof (induction e stmts implicit c arbitrary: w rule: exec.induct)
  case (1 e implicit c)
  then show ?case by (auto simp: view_def split: if_splits)
next
  case (2 e rest implicit c)
  then show ?case by (auto simp: view_def split: if_splits)
next
  case (3 e rest implicit c)
  let ?d = "if aborted c then committed c else view c"
  have d: "migration_history ?d = H" using "3.prems" by (simp add: view_def)
  from "3.prems"(1) have ex: "exec e rest True \<lparr>committed = ?d, txn = Some ?d, aborted = False\<rparr> = (r, c')"
    by (simp add: Let_def)
  show ?case
    using "3.IH" [OF refl ex, of ?d] d by simp
next
  case (4 e rest implicit c)
  from "4.prems"(1)
  have ex: "exec e rest True \<lparr>committed = committed c, txn = Some (committed c), aborted = False\<rparr> = (r, c')"
    by simp
  show ?case
    using "4.IH" [OF ex, of "committed c"] "4.prems" by simp
next
  case (5 e body rest implicit c)
  show ?case
  proof (cases "aborted c")
    case True
    with "5.prems" show ?thesis by (auto simp: view_def)
  next
    case False
    note na = this
    show ?thesis
    proof (cases "applySql e body (schema (view c))")
      case None
      with na "5.prems" show ?thesis
        by (auto simp: view_def failed_def split: if_splits)
    next
      case (Some sch)
      let ?c2 = "store c ((view c)\<lparr>schema := sch\<rparr>)"
      from "5.prems"(1) na Some have ex: "exec e rest implicit ?c2 = (r, c')" by simp
      have t2: "txn ?c2 = Some ((view c)\<lparr>schema := sch\<rparr>)"
        using "5.prems"(2) by (simp add: store_def)
      have h2: "migration_history ((view c)\<lparr>schema := sch\<rparr>) = H"
        using "5.prems" by (simp add: view_def)
      have k2: "migration_history (committed ?c2) = H"
        using "5.prems" by (simp add: store_def)
      from "5.IH" [OF na Some ex t2 h2 k2] show ?thesis .
    qed
  qed
qed

lemma exec_success:
  assumes "exec e stmts implicit c = (None, c')" and "\<not> aborted c"
  shows "\<not> aborted c'"
  using assms
proof (induction e stmts implicit c rule: exec.induct)
  case (1 e implicit c)
  then show ?case by (auto split: if_splits)
next
  case (2 e rest implicit c)
  then show ?case by (auto split: if_splits)
next
  case (3 e rest implicit c)
  then show ?case by (simp add: Let_def)
next
  case (4 e rest implicit c)
  then show ?case by simp
next
  case (5 e body rest implicit c)
  then show ?case
    by (auto simp: aborted_store split: if_splits option.splits)
qed


section \<open>Migration runner: one migration, one transaction\<close>




lemma executeMigration_error:
  assumes "noTransaction c" and "executeMigration e m c = (Some err, c')"
  shows "noTransaction c' \<and> migration_history (committed c') = migration_history (committed c)"
proof (cases "poolConnect e")
  case False
  with assms show ?thesis by (simp add: executeMigration_def)
next
  case True
  let ?c1 = "c\<lparr>txn := Some (committed c)\<rparr>"
  let ?H = "migration_history (committed c)"
  have b: "query e [Begin] c = (None, ?c1)" using query_begin [OF assms(1)] .
  obtain r2 c2 where q: "query e (statements e (sqlContent m)) ?c1 = (r2, c2)"
    by (cases "query e (statements e (sqlContent m)) ?c1")
  from q have ex: "exec e (statements e (sqlContent m)) False ?c1 = (r2, c2)"
    by (simp add: query_def)
  have k2: "migration_history (committed c2) = ?H"
    using exec_history [OF ex, of "committed c" ?H] by simp
  show ?thesis
  proof (cases r2)
    case (Some err2)
    with assms(2) True b q have "c' = \<lparr>committed = committed c2, txn = None, aborted = False\<rparr>"
      by (simp add: executeMigration_def rollbackAndThrow_result)
    with k2 show ?thesis by (simp add: noTransaction_def)
  next
    case None
    have a2: "\<not> aborted c2"
      using exec_success [OF ex [unfolded None]] assms(1) by (simp add: noTransaction_def)
    obtain r3 c3 where ins: "insertHistory (historyRecord e m) c2 = (r3, c3)"
      by (cases "insertHistory (historyRecord e m) c2")
    show ?thesis
    proof (cases r3)
      case (Some err3)
      with ins a2 have c3: "c3 = failed c2"
        by (auto simp: insertHistory_def split: option.splits if_splits)
      from assms(2) True b q None ins Some
      have "c' = \<lparr>committed = committed c3, txn = None, aborted = False\<rparr>"
        by (simp add: executeMigration_def rollbackAndThrow_result)
      with c3 k2 show ?thesis by (simp add: noTransaction_def failed_def split: option.splits)
    next
      case inserted: None
      with ins a2 have a3: "\<not> aborted c3"
        by (auto simp: insertHistory_def aborted_store split: option.splits if_splits)
      from assms(2) True b q None ins inserted query_commit [OF a3]
      show ?thesis by (simp add: executeMigration_def)
    qed
  qed
qed








section \<open>Migration runner: running twice\<close>

lemma endsWith_iff: "endsWith s suffix \<longleftrightarrow> (\<exists>p. s = p @ suffix)"
proof
  assume "endsWith s suffix"
  then have "s = take (length s - length suffix) s @ suffix"
    by (simp add: endsWith_def) (metis append_take_drop_id)
  then show "\<exists>p. s = p @ suffix" ..
next
  assume "\<exists>p. s = p @ suffix"
  then show "endsWith s suffix" by (auto simp: endsWith_def)
qed

lemma basename_sql:
  assumes "endsWith f ''.sql''"
  shows "basename f ''.sql'' @ ''.sql'' = f"
proof -
  from assms obtain p where "f = p @ ''.sql''" using endsWith_iff by blast
  with assms show ?thesis by (simp add: basename_def)
qed

lemma readMigrations_files:
  assumes "readMigrations e entries files = Inr ms" and "\<forall>f\<in>set files. endsWith f ''.sql''"
  shows "map (\<lambda>m. name m @ ''.sql'') ms = files
         \<and> (\<forall>m\<in>set ms. map_of entries (name m @ ''.sql'') = Some (Some (sqlContent m))
                          \<and> checksum m = sha256 e (sqlContent m))"
  using assms
proof (induction files arbitrary: ms)
  case Nil
  then show ?case by simp
next
  case (Cons f fs)
  from Cons.prems(1) obtain body rest where
    rd: "map_of entries f = Some (Some body)" and
    rs: "readMigrations e entries fs = Inr rest" and
    ms: "ms = \<lparr>name = basename f ''.sql'', filePath = migrationsDir e @ ''/'' @ f,
                sqlContent = body, checksum = calculateChecksum e body\<rparr> # rest"
    by (auto split: option.splits sum.splits)
  from Cons.prems(2) have ef: "endsWith f ''.sql''" and efs: "\<forall>f\<in>set fs. endsWith f ''.sql''"
    by simp_all
  from Cons.IH [OF rs efs] basename_sql [OF ef] rd ms show ?case
    by (simp add: calculateChecksum_def)
qed

lemma sqlFiles_eq:
  "sqlFiles entries = sort (filter (\<lambda>f. \<exists>p. f = p @ ''.sql'') (map fst entries))"
  by (simp add: sqlFiles_def endsWith_iff)

lemma sqlFiles_suffix: "\<forall>f\<in>set (sqlFiles entries). endsWith f ''.sql''"
  by (simp add: sqlFiles_def)







section \<open>Migration runner: validation\<close>

text \<open>
  The loop of \<open>validateMigrations\<close>: every missing file is logged until the first
  mismatch, which ends the loop.
\<close>

lemma checkExecuted_first_drift:
  assumes "\<forall>x\<in>set pre. \<not> drifted available x"
    and "find (\<lambda>m. name m = migration_name r) available = Some found"
    and "checksum found \<noteq> recorded_checksum r"
  shows "checkExecuted available (pre @ r # post) =
           (False, map (\<lambda>x. MigrationFileMissing (migration_name x)) (filter (fileMissing available) pre)
                   @ [ChecksumMismatch (migration_name r) (recorded_checksum r) (checksum found)])"
  using assms(1)
proof (induction pre)
  case Nil
  then show ?case using assms(2,3) by simp
next
  case (Cons x pre)
  from Cons.prems have nx: "\<not> drifted available x" and np: "\<forall>x\<in>set pre. \<not> drifted available x"
    by simp_all
  note ih = Cons.IH [OF np]
  show ?case
  proof (cases "find (\<lambda>m. name m = migration_name x) available")
    case None
    with ih show ?thesis by (simp add: fileMissing_def)
  next
    case (Some fx)
    with nx have "checksum fx = recorded_checksum x" by (simp add: drifted_def)
    with Some ih show ?thesis by (simp add: fileMissing_def)
  qed
qed

lemma checkExecuted_no_drift:
  assumes "\<forall>x\<in>set executed. \<not> drifted available x"
  shows "checkExecuted available executed =
           (True, map (\<lambda>x. MigrationFileMissing (migration_name x)) (filter (fileMissing available) executed)
                  @ [AllChecksumsValidated])"
  using assms
proof (induction executed)
  case Nil
  then show ?case by simp
next
  case (Cons x rest)
  from Cons.prems have nx: "\<not> drifted available x" and np: "\<forall>x\<in>set rest. \<not> drifted available x"
    by simp_all
  note ih = Cons.IH [OF np]
  show ?case
  proof (cases "find (\<lambda>m. name m = migration_name x) available")
    case None
    with ih show ?thesis by (simp add: fileMissing_def)
  next
    case (Some fx)
    with nx have "checksum fx = recorded_checksum x" by (simp add: drifted_def)
    with Some ih show ?thesis by (simp add: fileMissing_def)
  qed
qed

text \<open>
  What the two conditions say of the directory: the file named after the migration is
  not there, or it is there and its text no longer has the recorded checksum.
\<close>

lemma available_names:
  assumes "getAvailableMigrations e (Some entries) = Inr available"
  shows "(\<exists>m\<in>set available. name m = n) \<longleftrightarrow> n @ ''.sql'' \<in> fst ` set entries"
proof -
  from assms have rm: "readMigrations e entries (sqlFiles entries) = Inr available"
    by (simp add: getAvailableMigrations_def)
  note rf = readMigrations_files [OF rm sqlFiles_suffix]
  have "(\<exists>m\<in>set available. name m = n) \<longleftrightarrow> n @ ''.sql'' \<in> set (map (\<lambda>m. name m @ ''.sql'') available)"
    by auto
  also have "\<dots> \<longleftrightarrow> n @ ''.sql'' \<in> set (sqlFiles entries)"
    using rf by simp
  also have "\<dots> \<longleftrightarrow> n @ ''.sql'' \<in> fst ` set entries"
    by (auto simp: sqlFiles_eq)
  finally show ?thesis .
qed

lemma fileMissing_on_disk:
  assumes "getAvailableMigrations e (Some entries) = Inr available"
  shows "fileMissing available r \<longleftrightarrow> migration_name r @ ''.sql'' \<notin> fst ` set entries"
  using available_names [OF assms, of "migration_name r"]
  by (auto simp: fileMissing_def find_None_iff)

lemma drifted_on_disk:
  assumes "getAvailableMigrations e (Some entries) = Inr available"
  shows "drifted available r \<longleftrightarrow>
           (\<exists>body. map_of entries (migration_name r @ ''.sql'') = Some (Some body)
                    \<and> sha256 e body \<noteq> recorded_checksum r)"
proof -
  from assms have rm: "readMigrations e entries (sqlFiles entries) = Inr available"
    by (simp add: getAvailableMigrations_def)
  note rf = readMigrations_files [OF rm sqlFiles_suffix]
  show ?thesis
  proof (cases "find (\<lambda>m. name m = migration_name r) available")
    case None
    then have "\<not> (\<exists>m\<in>set available. name m = migration_name r)"
      by (simp add: find_None_iff)
    with available_names [OF assms, of "migration_name r"]
    have "migration_name r @ ''.sql'' \<notin> fst ` set entries" by simp
    then have "map_of entries (migration_name r @ ''.sql'') = None"
      by (simp add: map_of_eq_None_iff)
    with None show ?thesis by (simp add: drifted_def)
  next
    case (Some found)
    then have "found \<in> set available" and "name found = migration_name r"
      by (auto simp: find_Some_iff in_set_conv_nth)
    with rf have "map_of entries (migration_name r @ ''.sql'') = Some (Some (sqlContent found))"
      and "checksum found = sha256 e (sqlContent found)"
      by auto
    with Some show ?thesis by (auto simp: drifted_def)
  qed
qed

text \<open>
  C7, as stated, fails: the first file has been edited and the second deleted. The loop
  logs the mismatch of the first and returns; the missing file of the second executed
  migration is not reported.
\<close>

theorem validateMigrations_counterexample:
  "validateMigrations sampleMenv editedDir (session migratedDb) =
     (False,
      [ChecksumMismatch ''001_init'' ''sha:CREATE TABLE'' ''sha:CREATE TABLE v2''],
      session migratedDb)
   \<and> ''002_indexes.sql'' \<notin> fst ` set (the editedDir)
   \<and> migration_history migratedDb =
       Some [\<lparr>migration_name = ''001_init'', execution_time_ms = 7, recorded_checksum = ''sha:CREATE TABLE''\<rparr>,
             \<lparr>migration_name = ''002_indexes'', execution_time_ms = 7, recorded_checksum = ''sha:CREATE INDEX''\<rparr>]"
  by (simp add: validateMigrations_def getAvailableMigrations_def getExecutedMigrations_def
      sqlFiles_def basename_def endsWith_def calculateChecksum_def view_def
      sampleMenv_def editedDir_def session_def migratedDb_def)

text \<open>
  C7, amended. \<open>validateMigrations\<close> always returns an answer and leaves the session and
  its database as they are. A failure to read the files or the history is logged and
  answered \<open>false\<close>. Otherwise it walks the executed migrations in the order of the
  history: for each one whose file is missing on disk it logs a warning and goes on; at
  the first one whose recorded checksum differs from the SHA-256 checksum of its file it
  logs the mismatch at error level and answers \<open>false\<close> at once, so that what is wrong
  with later rows is not reported; if no checksum differs it answers \<open>true\<close>.
\<close>

theorem validateMigrations_reports:
  "\<exists>ok reports.
     validateMigrations e dir c = (ok, reports, c)
     \<and> (\<forall>cause. getAvailableMigrations e dir = Inl cause \<longrightarrow>
           \<not> ok \<and> reports = [ReadMigrationFilesFailed cause, ValidationFailed cause])
     \<and> (\<forall>available cause.
           getAvailableMigrations e dir = Inr available \<and> getExecutedMigrations e c = Inl cause \<longrightarrow>
             \<not> ok \<and> reports = [ValidationFailed cause])
     \<and> (\<forall>available executed.
           getAvailableMigrations e dir = Inr available \<and> getExecutedMigrations e c = Inr executed \<longrightarrow>
             (\<forall>pre r post found.
                 executed = pre @ r # post
                 \<and> (\<forall>x\<in>set pre. \<not> drifted available x)
                 \<and> find (\<lambda>m. name m = migration_name r) available = Some found
                 \<and> checksum found \<noteq> recorded_checksum r \<longrightarrow>
                   \<not> ok
                   \<and> reports =
                       map (\<lambda>x. MigrationFileMissing (migration_name x)) (filter (fileMissing available) pre)
                       @ [ChecksumMismatch (migration_name r) (recorded_checksum r) (checksum found)])
             \<and> ((\<forall>x\<in>set executed. \<not> drifted available x) \<longrightarrow>
                   ok
                   \<and> reports =
                       map (\<lambda>x. MigrationFileMissing (migration_name x)) (filter (fileMissing available) executed)
                       @ [AllChecksumsValidated]))
     \<and> (\<forall>entries available.
           dir = Some entries \<and> getAvailableMigrations e dir = Inr available \<longrightarrow>
             (\<forall>r. fileMissing available r \<longleftrightarrow> migration_name r @ ''.sql'' \<notin> fst ` set entries)
             \<and> (\<forall>r. drifted available r \<longleftrightarrow>
                      (\<exists>body. map_of entries (migration_name r @ ''.sql'') = Some (Some body)
                               \<and> sha256 e body \<noteq> recorded_checksum r)))"
proof -
  have disk: "\<forall>entries available.
           dir = Some entries \<and> getAvailableMigrations e dir = Inr available \<longrightarrow>
             (\<forall>r. fileMissing available r \<longleftrightarrow> migration_name r @ ''.sql'' \<notin> fst ` set entries)
             \<and> (\<forall>r. drifted available r \<longleftrightarrow>
                      (\<exists>body. map_of entries (migration_name r @ ''.sql'') = Some (Some body)
                               \<and> sha256 e body \<noteq> recorded_checksum r))"
  proof (intro allI impI)
    fix entries available
    assume h: "dir = Some entries \<and> getAvailableMigrations e dir = Inr available"
    from h have d: "dir = Some entries" by (rule conjunct1)
    from h have g0: "getAvailableMigrations e dir = Inr available" by (rule conjunct2)
    from g0 have g: "getAvailableMigrations e (Some entries) = Inr available" unfolding d .
    show "(\<forall>r. fileMissing available r \<longleftrightarrow> migration_name r @ ''.sql'' \<notin> fst ` set entries)
             \<and> (\<forall>r. drifted available r \<longleftrightarrow>
                      (\<exists>body. map_of entries (migration_name r @ ''.sql'') = Some (Some body)
                               \<and> sha256 e body \<noteq> recorded_checksum r))"
      using fileMissing_on_disk [OF g] drifted_on_disk [OF g] by simp
  qed
  show ?thesis
  proof (cases "getAvailableMigrations e dir")
    case (Inl cause)
    have v: "validateMigrations e dir c = (False, [ReadMigrationFilesFailed cause, ValidationFailed cause], c)"
      using Inl by (simp add: validateMigrations_def)
    show ?thesis
      by (intro exI [of _ False] exI [of _ "[ReadMigrationFilesFailed cause, ValidationFailed cause]"] conjI)
         (use v Inl disk in simp_all)
  next
    case (Inr available)
    note av = this
    show ?thesis
    proof (cases "getExecutedMigrations e c")
      case (Inl cause)
      have v: "validateMigrations e dir c = (False, [ValidationFailed cause], c)"
        using av Inl by (simp add: validateMigrations_def)
      show ?thesis
        by (intro exI [of _ False] exI [of _ "[ValidationFailed cause]"] conjI)
           (use v av Inl disk in simp_all)
    next
      case (Inr executed)
      obtain ok reports where ce: "checkExecuted available executed = (ok, reports)"
        by (cases "checkExecuted available executed")
      have v: "validateMigrations e dir c = (ok, reports, c)"
        using av Inr ce by (simp add: validateMigrations_def)
      have A: "\<forall>cause. getAvailableMigrations e dir = Inl cause \<longrightarrow>
           \<not> ok \<and> reports = [ReadMigrationFilesFailed cause, ValidationFailed cause]"
        using av by simp
      have B: "\<forall>available cause.
           getAvailableMigrations e dir = Inr available \<and> getExecutedMigrations e c = Inl cause \<longrightarrow>
             \<not> ok \<and> reports = [ValidationFailed cause]"
        using Inr by simp
      have C: "\<forall>available executed.
           getAvailableMigrations e dir = Inr available \<and> getExecutedMigrations e c = Inr executed \<longrightarrow>
             (\<forall>pre r post found.
                 executed = pre @ r # post
                 \<and> (\<forall>x\<in>set pre. \<not> drifted available x)
                 \<and> find (\<lambda>m. name m = migration_name r) available = Some found
                 \<and> checksum found \<noteq> recorded_checksum r \<longrightarrow>
                   \<not> ok
                   \<and> reports =
                       map (\<lambda>x. MigrationFileMissing (migration_name x)) (filter (fileMissing available) pre)
                       @ [ChecksumMismatch (migration_name r) (recorded_checksum r) (checksum found)])
             \<and> ((\<forall>x\<in>set executed. \<not> drifted available x) \<longrightarrow>
                   ok
                   \<and> reports =
                       map (\<lambda>x. MigrationFileMissing (migration_name x)) (filter (fileMissing available) executed)
                       @ [AllChecksumsValidated])"
      proof (intro allI impI conjI)
        fix available2 executed2 pre r post found
        assume h: "getAvailableMigrations e dir = Inr available2 \<and> getExecutedMigrations e c = Inr executed2"
          and k: "executed2 = pre @ r # post
                 \<and> (\<forall>x\<in>set pre. \<not> drifted available2 x)
                 \<and> find (\<lambda>m. name m = migration_name r) available2 = Some found
                 \<and> checksum found \<noteq> recorded_checksum r"
        from h av Inr have eq: "available2 = available" "executed2 = executed" by simp_all
        from k eq have k1: "\<forall>x\<in>set pre. \<not> drifted available x"
          and k2: "find (\<lambda>m. name m = migration_name r) available = Some found"
          and k3: "checksum found \<noteq> recorded_checksum r"
          and k4: "executed = pre @ r # post" by simp_all
        from checkExecuted_first_drift [OF k1 k2 k3, of post] ce k4 eq
        show "\<not> ok" and "reports =
                       map (\<lambda>x. MigrationFileMissing (migration_name x)) (filter (fileMissing available2) pre)
                       @ [ChecksumMismatch (migration_name r) (recorded_checksum r) (checksum found)]"
          by simp_all
      next
        fix available2 executed2
        assume h: "getAvailableMigrations e dir = Inr available2 \<and> getExecutedMigrations e c = Inr executed2"
          and k: "\<forall>x\<in>set executed2. \<not> drifted available2 x"
        from h av Inr have eq: "available2 = available" "executed2 = executed" by simp_all
        from k eq have k1: "\<forall>x\<in>set executed. \<not> drifted available x" by simp
        from checkExecuted_no_drift [OF k1] ce eq
        show "ok" and "reports =
                       map (\<lambda>x. MigrationFileMissing (migration_name x)) (filter (fileMissing available2) executed2)
                       @ [AllChecksumsValidated]"
          by simp_all
      qed
      show ?thesis
        by (intro exI [of _ ok] exI [of _ reports] conjI) (rule v A B C disk)+
    qed
  qed
qed

text \<open>
  After the two sample migrations ran, the first file was deleted and the second edited:
  the missing file and then the mismatch are logged, and the history is as it was.
\<close>

theorem validateMigrations_reports_witness:
  "validateMigrations sampleMenv driftedDir (session migratedDb) =
     (False,
      [MigrationFileMissing ''001_init'',
       ChecksumMismatch ''002_indexes'' ''sha:CREATE INDEX'' ''sha:CREATE UNIQUE INDEX''],
      session migratedDb)
   \<and> ''001_init.sql'' \<notin> fst ` set (the driftedDir)
   \<and> map_of (the driftedDir) ''002_indexes.sql'' = Some (Some ''CREATE UNIQUE INDEX'')"
proof -
  let ?m = "\<lparr>name = ''002_indexes'', filePath = ''/app/src/db/migrations/002_indexes.sql'',
              sqlContent = ''CREATE UNIQUE INDEX'', checksum = ''sha:CREATE UNIQUE INDEX''\<rparr>"
  let ?r1 = "\<lparr>migration_name = ''001_init'', execution_time_ms = 7,
               recorded_checksum = ''sha:CREATE TABLE''\<rparr>"
  let ?r2 = "\<lparr>migration_name = ''002_indexes'', execution_time_ms = 7,
               recorded_checksum = ''sha:CREATE INDEX''\<rparr>"
  have a: "getAvailableMigrations sampleMenv driftedDir = Inr [?m]"
    by (simp add: getAvailableMigrations_def sqlFiles_def driftedDir_def basename_def endsWith_def
        calculateChecksum_def sampleMenv_def)
  have b: "getExecutedMigrations sampleMenv (session migratedDb) = Inr [?r1, ?r2]"
    by (simp add: getExecutedMigrations_def sampleMenv_def migratedDb_def session_def view_def)
  have s: "[?r1, ?r2] = [?r1] @ ?r2 # []" by simp
  have p: "\<forall>x\<in>set [?r1]. \<not> drifted [?m] x" by (simp add: drifted_def)
  have f: "find (\<lambda>m. name m = migration_name ?r2) [?m] = Some ?m" by simp
  have k: "checksum ?m \<noteq> recorded_checksum ?r2" by simp
  have mis: "filter (fileMissing [?m]) [?r1] = [?r1]" by (simp add: fileMissing_def)
  from validateMigrations_reports [of sampleMenv driftedDir "session migratedDb"]
  obtain ok reports where
    v: "validateMigrations sampleMenv driftedDir (session migratedDb) = (ok, reports, session migratedDb)"
    and d: "\<forall>available executed.
           getAvailableMigrations sampleMenv driftedDir = Inr available
           \<and> getExecutedMigrations sampleMenv (session migratedDb) = Inr executed \<longrightarrow>
             (\<forall>pre r post found.
                 executed = pre @ r # post
                 \<and> (\<forall>x\<in>set pre. \<not> drifted available x)
                 \<and> find (\<lambda>m. name m = migration_name r) available = Some found
                 \<and> checksum found \<noteq> recorded_checksum r \<longrightarrow>
                   \<not> ok
                   \<and> reports =
                       map (\<lambda>x. MigrationFileMissing (migration_name x)) (filter (fileMissing available) pre)
                       @ [ChecksumMismatch (migration_name r) (recorded_checksum r) (checksum found)])
             \<and> ((\<forall>x\<in>set executed. \<not> drifted available x) \<longrightarrow>
                   ok
                   \<and> reports =
                       map (\<lambda>x. MigrationFileMissing (migration_name x)) (filter (fileMissing available) executed)
                       @ [AllChecksumsValidated])"
    by (elim exE conjE)
  note d1 = d [rule_format, OF conjI [OF a b], THEN conjunct1, rule_format]
  have h: "[?r1, ?r2] = [?r1] @ ?r2 # []
           \<and> (\<forall>x\<in>set [?r1]. \<not> drifted [?m] x)
           \<and> find (\<lambda>m. name m = migration_name ?r2) [?m] = Some ?m
           \<and> checksum ?m \<noteq> recorded_checksum ?r2"
    using s p f k by (intro conjI)
  from d1 [OF h] mis
  have "\<not> ok" and "reports = [MigrationFileMissing ''001_init'',
       ChecksumMismatch ''002_indexes'' ''sha:CREATE INDEX'' ''sha:CREATE UNIQUE INDEX'']"
    by simp_all
  with v show ?thesis by (simp add: driftedDir_def)
qed

end
